theory Spec2Isabelle
  imports Main "HOL-Library.Sublist"
begin

section \<open>Strings and buffers\<close>

text \<open>
  A JavaScript string is modelled by its UTF-8 encoding, as a \<^typ>\<open>string\<close>
  (one \<^typ>\<open>char\<close> per byte); a Node \<open>Buffer\<close> is a list of bytes of the same
  type. All characters the client inspects (CR, LF, digits, space, \<open>-\<close>, \<open>.\<close>, ASCII
  letters) are single bytes in this encoding, and no byte of a multi-byte sequence
  equals an ASCII byte, so \<open>indexOf\<close>, \<open>slice\<close> and the regular expressions of the
  source act on the encoding as they act on the string.
\<close>

abbreviation CR :: char where "CR \<equiv> CHR 0x0D"
abbreviation LF :: char where "LF \<equiv> CHR 0x0A"

text \<open>\<open>const CRLF = "\r\n"\<close>\<close>

abbreviation CRLF :: string where "CRLF \<equiv> [CR, LF]"

text \<open>
  \<open>String.prototype.indexOf(pat)\<close>: the index of the first occurrence, \<open>None\<close> for
  the source's \<open>-1\<close>.
\<close>

fun indexOf :: "string \<Rightarrow> string \<Rightarrow> nat option" where
  "indexOf [] pat = (if pat = [] then Some 0 else None)"
| "indexOf (c # cs) pat =
     (if prefix pat (c # cs) then Some 0 else map_option Suc (indexOf cs pat))"

definition includes_str :: "string \<Rightarrow> string \<Rightarrow> bool" where
  "includes_str s pat = (indexOf s pat \<noteq> None)"

subsection \<open>\<open>chunk.toString("utf8")\<close>\<close>

text \<open>
  The socket has no encoding set, so every \<open>data\<close> event carries a \<open>Buffer\<close>, and
  \<open>onData\<close> decodes each chunk on its own with \<open>chunk.toString("utf8")\<close>. The decoder
  is the platform's, not the repository's; it is modelled after the UTF-8 decoder of the
  WHATWG Encoding Standard, which Node follows: a well-formed sequence is kept, and every
  maximal ill-formed part, also a sequence cut short by the end of the buffer, becomes
  one U+FFFD (bytes EF BF BD).
\<close>

definition REPLACEMENT :: string where
  "REPLACEMENT = [CHR 0xEF, CHR 0xBF, CHR 0xBD]"

definition inRange :: "nat \<Rightarrow> nat \<Rightarrow> string \<Rightarrow> nat \<Rightarrow> bool" where
  "inRange lo hi bs i =
     (i < length bs \<and> lo \<le> of_char (bs ! i) \<and> (of_char (bs ! i) :: nat) \<le> hi)"

text \<open>
  One step of the decoder at lead byte \<open>b\<close> followed by \<open>bs\<close>: the text produced
  and the number of bytes of \<open>bs\<close> consumed.
\<close>

definition utf8Step :: "char \<Rightarrow> string \<Rightarrow> string \<times> nat" where
  "utf8Step b bs = (let n = (of_char b :: nat) in
     if n < 0x80 then ([b], 0)
     else if 0xC2 \<le> n \<and> n \<le> 0xDF then
       (if inRange 0x80 0xBF bs 0 then (b # take 1 bs, 1) else (REPLACEMENT, 0))
     else if 0xE0 \<le> n \<and> n \<le> 0xEF then
       (let lo = (if n = 0xE0 then 0xA0 else 0x80);
            hi = (if n = 0xED then 0x9F else 0xBF)
        in if \<not> inRange lo hi bs 0 then (REPLACEMENT, 0)
           else if \<not> inRange 0x80 0xBF bs 1 then (REPLACEMENT, 1)
           else (b # take 2 bs, 2))
     else if 0xF0 \<le> n \<and> n \<le> 0xF4 then
       (let lo = (if n = 0xF0 then 0x90 else 0x80);
            hi = (if n = 0xF4 then 0x8F else 0xBF)
        in if \<not> inRange lo hi bs 0 then (REPLACEMENT, 0)
           else if \<not> inRange 0x80 0xBF bs 1 then (REPLACEMENT, 1)
           else if \<not> inRange 0x80 0xBF bs 2 then (REPLACEMENT, 2)
           else (b # take 3 bs, 3))
     else (REPLACEMENT, 0))"

fun toStringUtf8 :: "string \<Rightarrow> string" where
  "toStringUtf8 [] = []"
| "toStringUtf8 (b # bs) =
     (case utf8Step b bs of (out, k) \<Rightarrow> out @ toStringUtf8 (drop k bs))"

section \<open>LineReader (\<open>createLineReader\<close>)\<close>

text \<open>
  The closure state of one line reader: the variable \<open>buffer\<close> and the array
  \<open>listeners\<close>. A listener is a callback that changes the state \<open>'s\<close> it closes over;
  it cannot reach \<open>buffer\<close>.
\<close>

record 's lineReader =
  buffer :: string
  listeners :: "(string \<Rightarrow> 's \<Rightarrow> 's) list"

text \<open>\<open>let buffer = ""; const listeners = [];\<close>\<close>

definition newLineReader :: "'s lineReader" where
  "newLineReader = \<lparr>buffer = [], listeners = []\<rparr>"

text \<open>\<open>onLine(fn) { listeners.push(fn); }\<close>\<close>

definition addListener :: "(string \<Rightarrow> 's \<Rightarrow> 's) \<Rightarrow> 's lineReader \<Rightarrow> 's lineReader" where
  "addListener fn r = r\<lparr>listeners := listeners r @ [fn]\<rparr>"

text \<open>\<open>listeners.forEach((fn) => fn(line))\<close>: every listener, in registration order.\<close>

definition emitLine :: "'s lineReader \<Rightarrow> string \<Rightarrow> 's \<Rightarrow> 's" where
  "emitLine r line s = foldl (\<lambda>s fn. fn line s) s (listeners r)"

lemma indexOf_bound: "indexOf s p = Some i \<Longrightarrow> i + length p \<le> length s"
proof (induction s arbitrary: i)
  case Nil
  then show ?case by (simp split: if_splits)
next
  case (Cons c cs)
  show ?case
  proof (cases "prefix p (c # cs)")
    case True
    with Cons.prems have "i = 0" by simp
    with prefix_length_le [OF True] show ?thesis by simp
  next
    case False
    with Cons.prems obtain j where "indexOf cs p = Some j" "i = Suc j" by auto
    with Cons.IH show ?thesis by fastforce
  qed
qed

text \<open>
  The loop \<open>while ((idx = buffer.indexOf("\r\n")) >= 0) { const line = buffer.slice(0, idx);
  buffer = buffer.slice(idx + 2); listeners.forEach((fn) => fn(line)); }\<close>.
\<close>

function drain :: "'s lineReader \<Rightarrow> 's \<Rightarrow> 's lineReader \<times> 's" where
  "drain r s =
     (case indexOf (buffer r) CRLF of
        None \<Rightarrow> (r, s)
      | Some idx \<Rightarrow>
          drain (r\<lparr>buffer := drop (idx + 2) (buffer r)\<rparr>)
                (emitLine r (take idx (buffer r)) s))"
  by pat_completeness auto
termination
proof (relation "measure (\<lambda>(r, s). length (buffer r))")
  show "wf (measure (\<lambda>(r :: 's lineReader, s :: 's). length (buffer r)))" by simp
next
  fix r :: "'s lineReader" and s :: 's and idx
  assume "indexOf (buffer r) CRLF = Some idx"
  from indexOf_bound [OF this] show
    "((r\<lparr>buffer := drop (idx + 2) (buffer r)\<rparr>, emitLine r (take idx (buffer r)) s), (r, s))
       \<in> measure (\<lambda>(r, s). length (buffer r))"
    by simp
qed

declare drain.simps [simp del]

text \<open>\<open>onData\<close>: \<open>buffer += chunk.toString("utf8")\<close>, then the loop.\<close>

definition onData :: "'s lineReader \<Rightarrow> string \<Rightarrow> 's \<Rightarrow> 's lineReader \<times> 's" where
  "onData r chunk s = drain (r\<lparr>buffer := buffer r @ toStringUtf8 chunk\<rparr>) s"

text \<open>The \<open>data\<close> events of a sequence of chunks, delivered in order.\<close>

fun feed :: "'s lineReader \<Rightarrow> string list \<Rightarrow> 's \<Rightarrow> 's lineReader \<times> 's" where
  "feed r [] s = (r, s)"
| "feed r (chunk # chunks) s = (case onData r chunk s of (r', s') \<Rightarrow> feed r' chunks s')"

text \<open>A listener that only records the lines it is given, in order.\<close>

definition logLine :: "string \<Rightarrow> string list \<Rightarrow> string list" where
  "logLine line log = log @ [line]"

text \<open>
  A split of a byte stream into chunks is at character boundaries when decoding chunk by
  chunk gives the text of the whole stream: no multi-byte sequence is cut.
\<close>

definition atCharBoundaries :: "string list \<Rightarrow> bool" where
  "atCharBoundaries chunks =
     (toStringUtf8 (concat chunks) = concat (map toStringUtf8 chunks))"

section \<open>Awaiting one response (\<open>readResponse\<close>)\<close>

text \<open>\<open>\d\<close> matches the ASCII digits only.\<close>

definition isDigit :: "char \<Rightarrow> bool" where
  "isDigit c = (48 \<le> (of_char c :: nat) \<and> (of_char c :: nat) \<le> 57)"

text \<open>\<open>parseInt(m[1], 10)\<close> on a string of digits.\<close>

definition parseInt :: "string \<Rightarrow> nat" where
  "parseInt ds = foldl (\<lambda>n d. 10 * n + (of_char d - 48)) 0 ds"

text \<open>
  What \<open>(.*)$\<close> accepts: \<open>.\<close> matches every character but the line terminators
  LF, CR, U+2028 and U+2029 (E2 80 A8 and E2 80 A9 in the encoding), and \<open>$\<close> without
  the \<open>m\<close> flag matches at the end of the string only.
\<close>

definition noLineTerminator :: "string \<Rightarrow> bool" where
  "noLineTerminator s =
     (CR \<notin> set s \<and> LF \<notin> set s \<and>
      \<not> includes_str s [CHR 0xE2, CHR 0x80, CHR 0xA8] \<and>
      \<not> includes_str s [CHR 0xE2, CHR 0x80, CHR 0xA9])"

text \<open>
  \<open>line.match(/^(\d{3})([ -])(.*)$/)\<close>: \<open>None\<close> for \<open>null\<close>, otherwise
  \<open>parseInt(m[1], 10)\<close> and the separator \<open>m[2]\<close>.
\<close>

definition matchReply :: "string \<Rightarrow> (nat \<times> char) option" where
  "matchReply line =
     (case line of
        d1 # d2 # d3 # sep # rest \<Rightarrow>
          if isDigit d1 \<and> isDigit d2 \<and> isDigit d3 \<and> (sep = CHR '' '' \<or> sep = CHR ''-'')
             \<and> noLineTerminator rest
          then Some (parseInt [d1, d2, d3], sep) else None
      | _ \<Rightarrow> None)"

text \<open>A terminal line: well-formed, with a space after the code.\<close>

definition isTerminal :: "string \<Rightarrow> bool" where
  "isTerminal line = (case matchReply line of Some (c, sep) \<Rightarrow> sep = CHR '' '' | None \<Rightarrow> False)"

definition isWellFormed :: "string \<Rightarrow> bool" where
  "isWellFormed line = (matchReply line \<noteq> None)"

text \<open>The value \<open>{ code, lines }\<close> a response resolves to.\<close>

record response =
  code :: nat
  lines :: "string list"

text \<open>
  The closure state of one \<open>readResponse\<close> call: the array \<open>lines\<close>, the variable
  \<open>code\<close> (\<open>None\<close> for \<open>null\<close>), the code the promise was resolved with (a promise
  settles once: a later \<open>resolve\<close> changes nothing; the array of the resolved value is
  \<open>lines\<close> itself), and whether \<open>reader.remove()\<close> has been called.
\<close>

record waiting =
  wlines :: "string list"
  wcode :: "nat option"
  resolved :: "nat option"
  removed :: bool

definition newWaiting :: waiting where
  "newWaiting = \<lparr>wlines = [], wcode = None, resolved = None, removed = False\<rparr>"

text \<open>The listener \<open>onLine\<close> of \<open>readResponse\<close>.\<close>

definition onLine :: "string \<Rightarrow> waiting \<Rightarrow> waiting" where
  "onLine line w =
     (let w1 = w\<lparr>wlines := wlines w @ [line]\<rparr> in
      case matchReply line of
        Some (currentCode, sep) \<Rightarrow>
          (let w2 = w1\<lparr>wcode := Some currentCode\<rparr> in
           if sep = CHR '' ''
           then w2\<lparr>removed := True,
                   resolved := (case resolved w2 of None \<Rightarrow> Some currentCode
                                | Some c \<Rightarrow> Some c)\<rparr>
           else w2)
      | None \<Rightarrow> w1)"

text \<open>
  What the socket can deliver while a response is awaited: a \<open>data\<close> event with a
  chunk, an \<open>error\<close> event, or the \<open>timeout\<close> event of \<open>socket.setTimeout(20000, ...)\<close>.
\<close>

datatype event = Data string | SocketError string | Timeout

text \<open>
  How the promise of \<open>readResponse\<close> settles: resolved with a response, or rejected with
  \<open>new Error("Timeout aguardando resposta SMTP")\<close> or with the socket's error.
\<close>

datatype rejection = TimeoutError | TransportError string

datatype outcome = Resolved response | Rejected rejection

text \<open>
  The events are handled one at a time, and the code awaiting the promise runs as soon
  as the handler of the settling event has returned: it sees \<open>lines\<close> as that handler
  left it. \<open>None\<close>: the events ran out and the promise is still pending. The events
  not consumed are returned.
\<close>

fun awaitSettled ::
  "waiting lineReader \<Rightarrow> waiting \<Rightarrow> event list \<Rightarrow> outcome option \<times> event list" where
  "awaitSettled r w [] = (None, [])"
| "awaitSettled r w (Data chunk # evs) =
     (case onData r chunk w of
        (r', w') \<Rightarrow>
          (case resolved w' of
             Some c \<Rightarrow> (Some (Resolved \<lparr>code = c, lines = wlines w'\<rparr>), evs)
           | None \<Rightarrow> awaitSettled r' w' evs))"
| "awaitSettled r w (SocketError err # evs) = (Some (Rejected (TransportError err)), evs)"
| "awaitSettled r w (Timeout # evs) = (Some (Rejected TimeoutError), evs)"

definition readResponse :: "event list \<Rightarrow> outcome option \<times> event list" where
  "readResponse evs = awaitSettled (addListener onLine newLineReader) newWaiting evs"

section \<open>The message: dot-stuffing and MIME (\<open>dotStuff\<close>, \<open>buildMime\<close>)\<close>

text \<open>
  \<open>body.replace(/\r?\n\./g, "\r\n..")\<close>: the string is scanned from the left; where
  \<open>\r\n.\<close> or, failing that, \<open>\n.\<close> starts, the match is replaced and the scan goes on
  behind it; any other character is copied.
\<close>

fun dotStuff :: "string \<Rightarrow> string" where
  "dotStuff [] = []"
| "dotStuff (c # cs) =
     (if prefix (CRLF @ ''.'') (c # cs) then CRLF @ ''..'' @ dotStuff (drop 2 cs)
      else if prefix (LF # ''.'') (c # cs) then CRLF @ ''..'' @ dotStuff (drop 1 cs)
      else c # dotStuff cs)"

text \<open>\<open>raw.replace(/\r?\n/g, CRLF)\<close>\<close>

fun normalizeCRLF :: "string \<Rightarrow> string" where
  "normalizeCRLF [] = []"
| "normalizeCRLF (c # cs) =
     (if prefix CRLF (c # cs) then CRLF @ normalizeCRLF (drop 1 cs)
      else if c = LF then CRLF @ normalizeCRLF cs
      else c # normalizeCRLF cs)"

text \<open>The double quote of the header templates.\<close>

abbreviation DQ :: char where "DQ \<equiv> CHR 0x22"

text \<open>\<open>Array.prototype.join(sep)\<close> on an array of strings.\<close>

fun joinWith :: "string \<Rightarrow> string list \<Rightarrow> string" where
  "joinWith sep [] = []"
| "joinWith sep [x] = x"
| "joinWith sep (x # y # zs) = x @ sep @ joinWith sep (y # zs)"

text \<open>
  The value of \<open>to\<close>, \<open>cc\<close> or \<open>bcc\<close>: \<open>undefined\<close>, one string, or an array of
  strings.
\<close>

datatype addresses = Undefined | Single string | Many "string list"

record attachment =
  filename :: string
  contentBase64 :: string
  contentType :: "string option"

text \<open>
  The argument of \<open>send\<close> and of \<open>buildMime\<close>. An optional string is \<open>None\<close> when
  \<open>undefined\<close>; \<open>attachments\<close> is \<open>[]\<close> when \<open>undefined\<close> (the default of
  \<open>buildMime\<close>).
\<close>

record message =
  mFrom :: "string option"
  mTo :: addresses
  mCc :: addresses
  mBcc :: addresses
  subject :: "string option"
  mText :: "string option"
  html :: "string option"
  attachments :: "attachment list"

text \<open>
  What the platform supplies to \<open>send\<close> and \<open>buildMime\<close>:
  \<open>String.prototype.toUpperCase\<close>, \<open>new Date().toUTCString()\<close>, \<open>Date.now()\<close> in decimal,
  and the three values of \<open>Math.random().toString(36).slice(2)\<close>, in call order.
\<close>

record platform =
  toUpperCase :: "string \<Rightarrow> string"
  utcDate :: string
  nowMs :: string
  randomId :: string
  randomAlt :: string
  randomMixed :: string

text \<open>A possibly undefined string in a template literal, and \<open>x || ""\<close>, \<open>x ?? ""\<close>.\<close>

definition interpolate :: "string option \<Rightarrow> string" where
  "interpolate v = (case v of None \<Rightarrow> ''undefined'' | Some s \<Rightarrow> s)"

definition orEmpty :: "string option \<Rightarrow> string" where
  "orEmpty v = (case v of None \<Rightarrow> [] | Some s \<Rightarrow> s)"

text \<open>A string or \<open>undefined\<close> as a condition: \<open>undefined\<close> and \<open>""\<close> are falsy.\<close>

definition truthy :: "string option \<Rightarrow> bool" where
  "truthy v = (case v of None \<Rightarrow> False | Some s \<Rightarrow> s \<noteq> [])"

text \<open>\<open>Array.isArray(to) ? to.join(", ") : to\<close>, as the template prints it.\<close>

definition toList :: "addresses \<Rightarrow> string" where
  "toList a = (case a of Many xs \<Rightarrow> joinWith '', '' xs | Single s \<Rightarrow> s
               | Undefined \<Rightarrow> ''undefined'')"

text \<open>\<open>cc ? (Array.isArray(cc) ? cc.join(", ") : cc) : undefined\<close>; an array is truthy.\<close>

definition ccList :: "addresses \<Rightarrow> string option" where
  "ccList a = (case a of Undefined \<Rightarrow> None
               | Single s \<Rightarrow> (if s = [] then None else Some s)
               | Many xs \<Rightarrow> Some (joinWith '', '' xs))"

text \<open>\<open>bcc ? (Array.isArray(bcc) ? bcc.join(", ") : bcc) : undefined\<close>\<close>

definition bccList :: "addresses \<Rightarrow> string option" where
  "bccList a = (case a of Undefined \<Rightarrow> None
                | Single s \<Rightarrow> (if s = [] then None else Some s)
                | Many xs \<Rightarrow> Some (joinWith '', '' xs))"

text \<open>\<open>...(ccList ? { "Cc": ccList } : {})\<close>, and the same for \<open>Bcc\<close>.\<close>

definition optionalHeader :: "string \<Rightarrow> string option \<Rightarrow> (string \<times> string) list" where
  "optionalHeader k v = (if truthy v then [(k, orEmpty v)] else [])"

definition joinHeaders :: "(string \<times> string) list \<Rightarrow> string" where
  "joinHeaders headersObj = joinWith CRLF (map (\<lambda>(k, v). k @ '': '' @ v) headersObj)"

definition attachmentPart :: "string \<Rightarrow> attachment \<Rightarrow> string" where
  "attachmentPart mixedBoundary att =
     ''--'' @ mixedBoundary @ CRLF @
     ''Content-Type: '' @
       (case contentType att of None \<Rightarrow> ''application/octet-stream'' | Some t \<Rightarrow> t) @
       ''; name='' @ [DQ] @ filename att @ [DQ] @ CRLF @
     ''Content-Transfer-Encoding: base64'' @ CRLF @
     ''Content-Disposition: attachment; filename='' @ [DQ] @ filename att @ [DQ] @ CRLF @ CRLF @
     contentBase64 att @ CRLF"

definition buildMime :: "platform \<Rightarrow> message \<Rightarrow> string" where
  "buildMime pf m =
     (let date = utcDate pf;
          messageId = ''<'' @ nowMs pf @ ''.'' @ randomId pf @ ''@local>'';
          headers =
            [(''From'', interpolate (mFrom m)), (''To'', toList (mTo m))] @
            optionalHeader ''Cc'' (ccList (mCc m)) @
            optionalHeader ''Bcc'' (bccList (mBcc m)) @
            [(''Subject'', orEmpty (subject m)), (''Date'', date),
             (''Message-ID'', messageId), (''MIME-Version'', ''1.0'')];
          altBoundary = ''alt_'' @ randomAlt pf;
          mixedBoundary = ''mix_'' @ randomMixed pf;
          textPart =
            ''--'' @ altBoundary @ CRLF @
            ''Content-Type: text/plain; charset='' @ [DQ] @ ''utf-8'' @ [DQ] @ CRLF @
            ''Content-Transfer-Encoding: 7bit'' @ CRLF @ CRLF @
            orEmpty (mText m) @ CRLF;
          htmlPart =
            ''--'' @ altBoundary @ CRLF @
            ''Content-Type: text/html; charset='' @ [DQ] @ ''utf-8'' @ [DQ] @ CRLF @
            ''Content-Transfer-Encoding: 7bit'' @ CRLF @ CRLF @
            orEmpty (html m) @ CRLF;
          altClosing = ''--'' @ altBoundary @ ''--'' @ CRLF;
          altBody =
            ''Content-Type: multipart/alternative; boundary='' @ [DQ] @ altBoundary @ [DQ] @ CRLF @ CRLF @
            textPart @ htmlPart @ altClosing
      in if attachments m = [] then joinHeaders headers @ CRLF @ altBody
         else
           foldl (\<lambda>mixedBody att. mixedBody @ attachmentPart mixedBoundary att)
             (joinHeaders headers @ CRLF @
              ''Content-Type: multipart/mixed; boundary='' @ [DQ] @ mixedBoundary @ [DQ] @ CRLF @ CRLF @
              ''--'' @ mixedBoundary @ CRLF @ altBody)
             (attachments m)
           @ ''--'' @ mixedBoundary @ ''--'' @ CRLF)"

section \<open>The session (\<open>SMTPClient.send\<close>)\<close>

subsection \<open>\<open>base64\<close> and the capability tests\<close>

definition base64Alphabet :: string where
  "base64Alphabet = ''ABCDEFGHIJKLMNOPQRSTUVWXYZabcdefghijklmnopqrstuvwxyz0123456789+/''"

fun base64Bytes :: "nat list \<Rightarrow> string" where
  "base64Bytes (a # b # c # rest) =
     (let n = a * 65536 + b * 256 + c
      in [base64Alphabet ! (n div 262144), base64Alphabet ! (n div 4096 mod 64),
          base64Alphabet ! (n div 64 mod 64), base64Alphabet ! (n mod 64)] @ base64Bytes rest)"
| "base64Bytes [a, b] =
     (let n = a * 65536 + b * 256
      in [base64Alphabet ! (n div 262144), base64Alphabet ! (n div 4096 mod 64),
          base64Alphabet ! (n div 64 mod 64), CHR ''=''])"
| "base64Bytes [a] =
     (let n = a * 65536
      in [base64Alphabet ! (n div 262144), base64Alphabet ! (n div 4096 mod 64),
          CHR ''='', CHR ''=''])"
| "base64Bytes [] = []"

text \<open>
  \<open>Buffer.from(str, "utf8").toString("base64")\<close>: the bytes of the string's UTF-8
  encoding, which is how strings are represented here.
\<close>

definition base64 :: "string \<Rightarrow> string" where
  "base64 str = base64Bytes (map of_char str)"

text \<open>
  Matching under the \<open>i\<close> flag (without \<open>u\<close>): a character matches an ASCII letter of
  the pattern when its upper case is that letter, and no character outside ASCII is
  taken to an ASCII letter.
\<close>

definition upperAscii :: "char \<Rightarrow> char" where
  "upperAscii c =
     (if 97 \<le> (of_char c :: nat) \<and> (of_char c :: nat) \<le> 122
      then char_of (of_char c - 32 :: nat) else c)"

text \<open>The upper-case pattern \<open>pat\<close> matches at the start of the text.\<close>

fun matchesHere :: "string \<Rightarrow> string \<Rightarrow> bool" where
  "matchesHere [] cs = True"
| "matchesHere (p # ps) [] = False"
| "matchesHere (p # ps) (c # cs) = (upperAscii c = p \<and> matchesHere ps cs)"

text \<open>\<open>/PAT/i.test(l)\<close> for a pattern of ASCII letters, given in upper case.\<close>

fun testIgnoreCase :: "string \<Rightarrow> string \<Rightarrow> bool" where
  "testIgnoreCase pat [] = matchesHere pat []"
| "testIgnoreCase pat (c # cs) = (matchesHere pat (c # cs) \<or> testIgnoreCase pat cs)"

text \<open>\<open>\w\<close>: \<open>[A-Za-z0-9_]\<close>.\<close>

definition isWordChar :: "char \<Rightarrow> bool" where
  "isWordChar c = (let n = (of_char c :: nat) in
     (48 \<le> n \<and> n \<le> 57) \<or> (65 \<le> n \<and> n \<le> 90) \<or> (97 \<le> n \<and> n \<le> 122) \<or> n = 95)"

text \<open>
  \<open>/AUTH\b/i.test(l)\<close>: \<open>AUTH\<close> in any case, followed by the end of the line or by a
  character that is not a word character.
\<close>

fun testAuthWord :: "string \<Rightarrow> bool" where
  "testAuthWord [] = False"
| "testAuthWord (c # cs) =
     ((matchesHere ''AUTH'' (c # cs) \<and>
       (case drop 3 cs of [] \<Rightarrow> True | d # ds \<Rightarrow> \<not> isWordChar d))
      \<or> testAuthWord cs)"

text \<open>\<open>resp.lines.some(l => /AUTH\b/i.test(l) && /LOGIN/i.test(l))\<close>, and for \<open>PLAIN\<close>.\<close>

definition supportsAuthLogin :: "string list \<Rightarrow> bool" where
  "supportsAuthLogin ls = list_ex (\<lambda>l. testAuthWord l \<and> testIgnoreCase ''LOGIN'' l) ls"

definition supportsAuthPlain :: "string list \<Rightarrow> bool" where
  "supportsAuthPlain ls = list_ex (\<lambda>l. testAuthWord l \<and> testIgnoreCase ''PLAIN'' l) ls"

text \<open>\<open>resp.lines.some(l => l.toUpperCase().includes("STARTTLS"))\<close>\<close>

definition supportsStartTLS :: "platform \<Rightarrow> string list \<Rightarrow> bool" where
  "supportsStartTLS pf ls = list_ex (\<lambda>l. includes_str (toUpperCase pf l) ''STARTTLS'') ls"

subsection \<open>Configuration, recipients, errors\<close>

text \<open>\<open>this.cfg\<close>, with the constructor's defaults applied.\<close>

record config =
  host :: string
  port :: nat
  secure :: bool
  user :: "string option"
  pass :: "string option"
  helo :: string

text \<open>
  \<open>to || []\<close> as an argument of \<open>concat\<close>: \<open>undefined\<close> and \<open>""\<close> are falsy and give
  the empty array; \<open>concat\<close> appends a string as one element and an array element by
  element.
\<close>

definition concatArg :: "addresses \<Rightarrow> string list" where
  "concatArg a = (case a of Undefined \<Rightarrow> []
                  | Single s \<Rightarrow> (if s = [] then [] else [s])
                  | Many xs \<Rightarrow> xs)"

text \<open>
  \<open>[].concat(to || []).concat(cc || []).concat(bcc || [])\<close>; the result is an array,
  so \<open>recipients\<close> is \<open>rcpts\<close>.
\<close>

definition recipientsOf :: "message \<Rightarrow> string list" where
  "recipientsOf m = concatArg (mTo m) @ concatArg (mCc m) @ concatArg (mBcc m)"

text \<open>
  The errors \<open>send\<close> throws, one constructor for each \<open>throw\<close> of the source in source
  order, with the lines of the response its message joins, and \<open>ReadFailed\<close> for a
  rejected \<open>readResponse\<close>, which \<open>await\<close> throws on.
\<close>

datatype error =
    FromRequired
  | RecipientRequired
  | BannerFailed "string list"
  | HeloFailed "string list"
  | StartTlsFailed "string list"
  | EhloAfterTlsFailed "string list"
  | AuthPlainFailed "string list"
  | AuthLoginRejected "string list"
  | UserRejected "string list"
  | PassRejected "string list"
  | NoAuthMechanism
  | MailFromFailed "string list"
  | RcptFailed string "string list"
  | DataRejected "string list"
  | BodyFailed "string list"
  | ReadFailed rejection

subsection \<open>The transport as \<open>send\<close> uses it\<close>

text \<open>
  The two socket objects: the one bound to the variable \<open>socket\<close>, and the TLS socket
  \<open>secured\<close> that STARTTLS wraps around it.
\<close>

datatype endpoint = Socket | Secured

text \<open>
  What \<open>send\<close> does to the outside, in order: \<open>net.connect(port, host)\<close> or
  \<open>tls.connect(port, host, ...)\<close>; a \<open>write\<close>, on the object that performs it;
  \<open>socket.removeAllListeners("data")\<close>; \<open>tls.connect({ socket, servername: host })\<close>;
  \<open>socket.end()\<close>.
\<close>

datatype action =
    Connect bool nat string
  | Write endpoint string
  | RemoveAllListeners
  | TlsConnect string
  | End

text \<open>
  The state of one \<open>send\<close>: the actions so far; whether \<open>socket.write\<close> (with \<open>on\<close>,
  \<open>once\<close>, \<open>setTimeout\<close>, \<open>removeAllListeners\<close>) has been replaced by the method of
  \<open>secured\<close>; the server's side: how the promises of the \<open>readResponse\<close> calls
  still to come settle, in call order (when none is left, the promise stays pending),
  and whether the TLS handshake of STARTTLS completes; and the socket's property
  \<open>destroyed\<close>. The source never calls \<open>destroy\<close>; the property changes by the
  platform alone, when the socket fails.
\<close>

record session =
  trace :: "action list"
  rebound :: bool
  replies :: "outcome list"
  handshake :: bool
  destroyed :: bool

text \<open>
  A step of \<open>send\<close> returns, throws, or waits for ever on a promise that does not
  settle.
\<close>

datatype 'a step = Ok 'a | Threw error | Pending

definition andThen ::
  "'a step \<times> session \<Rightarrow> ('a \<Rightarrow> session \<Rightarrow> 'b step \<times> session) \<Rightarrow> 'b step \<times> session" where
  "andThen m f =
     (case m of (Ok a, s) \<Rightarrow> f a s | (Threw e, s) \<Rightarrow> (Threw e, s) | (Pending, s) \<Rightarrow> (Pending, s))"

text \<open>\<open>socket.write(data)\<close>\<close>

definition socketWrite :: "string \<Rightarrow> session \<Rightarrow> session" where
  "socketWrite data s =
     s\<lparr>trace := trace s @ [Write (if rebound s then Secured else Socket) data]\<rparr>"

text \<open>
  The platform's part in a rejected wait. The promise is rejected from the handler of
  the socket's \<open>error\<close> event or from the \<open>timeout\<close> callback. Node emits \<open>error\<close>
  on a socket as it destroys it (the \<open>close\<close> event follows directly), so the
  awaiting code resumes with \<open>destroyed\<close> set; a \<open>timeout\<close> only notifies that
  the socket has been idle and leaves it as it is.
\<close>

definition afterRejection :: "rejection \<Rightarrow> session \<Rightarrow> session" where
  "afterRejection err s =
     (case err of TimeoutError \<Rightarrow> s | TransportError e \<Rightarrow> s\<lparr>destroyed := True\<rparr>)"

text \<open>\<open>await readResponse(socket)\<close>\<close>

definition awaitResponse :: "session \<Rightarrow> response step \<times> session" where
  "awaitResponse s =
     (case replies s of
        [] \<Rightarrow> (Pending, s)
      | Resolved resp # rest \<Rightarrow> (Ok resp, s\<lparr>replies := rest\<rparr>)
      | Rejected err # rest \<Rightarrow>
          (Threw (ReadFailed err), afterRejection err (s\<lparr>replies := rest\<rparr>)))"

subsection \<open>The steps\<close>

text \<open>1) Banner\<close>

definition banner :: "session \<Rightarrow> response step \<times> session" where
  "banner s =
     andThen (awaitResponse s) (\<lambda>resp s.
       if code resp \<noteq> 220 then (Threw (BannerFailed (lines resp)), s) else (Ok resp, s))"

text \<open>2) EHLO, and HELO when EHLO is not answered with 250\<close>

definition greet :: "config \<Rightarrow> session \<Rightarrow> response step \<times> session" where
  "greet cfg s =
     andThen (awaitResponse (socketWrite (''EHLO '' @ helo cfg @ CRLF) s)) (\<lambda>resp s.
       if code resp \<noteq> 250 then
         andThen (awaitResponse (socketWrite (''HELO '' @ helo cfg @ CRLF) s)) (\<lambda>resp s.
           if code resp \<noteq> 250 then (Threw (HeloFailed (lines resp)), s) else (Ok resp, s))
       else (Ok resp, s))"

text \<open>
  The upgrade: \<open>removeAllListeners("data")\<close>, \<open>tls.connect\<close>, the five assignments;
  the promise resolves when the handshake completes and is never rejected.
\<close>

definition upgrade :: "config \<Rightarrow> session \<Rightarrow> unit step \<times> session" where
  "upgrade cfg s =
     (let s1 = s\<lparr>trace := trace s @ [RemoveAllListeners, TlsConnect (host cfg)],
                 rebound := True\<rparr>
      in if handshake s1 then (Ok (), s1) else (Pending, s1))"

text \<open>3) STARTTLS, when not \<open>secure\<close> and advertised; then EHLO again\<close>

definition startTls ::
  "platform \<Rightarrow> config \<Rightarrow> response \<Rightarrow> session \<Rightarrow> response step \<times> session" where
  "startTls pf cfg resp s =
     (if \<not> secure cfg \<and> supportsStartTLS pf (lines resp) then
        andThen (awaitResponse (socketWrite (''STARTTLS'' @ CRLF) s)) (\<lambda>resp s.
          if code resp \<noteq> 220 then (Threw (StartTlsFailed (lines resp)), s)
          else
            andThen (upgrade cfg s) (\<lambda>_ s.
              andThen (awaitResponse (socketWrite (''EHLO '' @ helo cfg @ CRLF) s)) (\<lambda>resp s.
                if code resp \<noteq> 250 then (Threw (EhloAfterTlsFailed (lines resp)), s)
                else (Ok resp, s))))
      else (Ok resp, s))"

text \<open>4) AUTH, when \<open>user && pass\<close>\<close>

definition authPlain :: "config \<Rightarrow> session \<Rightarrow> response step \<times> session" where
  "authPlain cfg s =
     (let payload = base64 (CHR 0x00 # orEmpty (user cfg) @ CHR 0x00 # orEmpty (pass cfg))
      in andThen (awaitResponse (socketWrite (''AUTH PLAIN '' @ payload @ CRLF) s)) (\<lambda>resp s.
           if code resp \<noteq> 235 then (Threw (AuthPlainFailed (lines resp)), s)
           else (Ok resp, s)))"

definition authLogin :: "config \<Rightarrow> session \<Rightarrow> response step \<times> session" where
  "authLogin cfg s =
     andThen (awaitResponse (socketWrite (''AUTH LOGIN'' @ CRLF) s)) (\<lambda>resp s.
       if code resp \<noteq> 334 then (Threw (AuthLoginRejected (lines resp)), s)
       else
         andThen (awaitResponse (socketWrite (base64 (orEmpty (user cfg)) @ CRLF) s)) (\<lambda>resp s.
           if code resp \<noteq> 334 then (Threw (UserRejected (lines resp)), s)
           else
             andThen (awaitResponse (socketWrite (base64 (orEmpty (pass cfg)) @ CRLF) s))
               (\<lambda>resp s.
                 if code resp \<noteq> 235 then (Threw (PassRejected (lines resp)), s)
                 else (Ok resp, s))))"

definition authenticate :: "config \<Rightarrow> response \<Rightarrow> session \<Rightarrow> response step \<times> session" where
  "authenticate cfg resp s =
     (if truthy (user cfg) \<and> truthy (pass cfg) then
        (if supportsAuthPlain (lines resp) then authPlain cfg s
         else if supportsAuthLogin (lines resp) then authLogin cfg s
         else (Threw NoAuthMechanism, s))
      else (Ok resp, s))"

text \<open>5) MAIL FROM\<close>

definition mailFrom :: "message \<Rightarrow> session \<Rightarrow> response step \<times> session" where
  "mailFrom m s =
     andThen (awaitResponse (socketWrite (''MAIL FROM:<'' @ interpolate (mFrom m) @ ''>'' @ CRLF) s))
       (\<lambda>resp s.
         if code resp \<noteq> 250 then (Threw (MailFromFailed (lines resp)), s) else (Ok resp, s))"

text \<open>6) RCPT TO, for each recipient\<close>

definition rcptCommand :: "string \<Rightarrow> string" where
  "rcptCommand rcpt = ''RCPT TO:<'' @ rcpt @ ''>'' @ CRLF"

fun rcptTo :: "string list \<Rightarrow> session \<Rightarrow> unit step \<times> session" where
  "rcptTo [] s = (Ok (), s)"
| "rcptTo (rcpt # rcpts) s =
     andThen (awaitResponse (socketWrite (rcptCommand rcpt) s)) (\<lambda>resp s.
       if code resp \<noteq> 250 \<and> code resp \<noteq> 251 then (Threw (RcptFailed rcpt (lines resp)), s)
       else rcptTo rcpts s)"

text \<open>7) DATA\<close>

definition dataCommand :: "session \<Rightarrow> response step \<times> session" where
  "dataCommand s =
     andThen (awaitResponse (socketWrite (''DATA'' @ CRLF) s)) (\<lambda>resp s.
       if code resp \<noteq> 354 then (Threw (DataRejected (lines resp)), s) else (Ok resp, s))"

text \<open>8) The MIME document, normalized and dot-stuffed, and the terminator\<close>

definition sendBody :: "platform \<Rightarrow> message \<Rightarrow> session \<Rightarrow> response step \<times> session" where
  "sendBody pf m s =
     (let raw = buildMime pf m;
          normalized = normalizeCRLF raw;
          stuffed = dotStuff normalized
      in andThen (awaitResponse (socketWrite (stuffed @ CRLF @ ''.'' @ CRLF) s)) (\<lambda>resp s.
           if code resp \<noteq> 250 then (Threw (BodyFailed (lines resp)), s) else (Ok resp, s)))"

text \<open>9) QUIT, its response awaited and not inspected; then \<open>socket.end()\<close>\<close>

definition quit :: "session \<Rightarrow> unit step \<times> session" where
  "quit s =
     andThen (awaitResponse (socketWrite (''QUIT'' @ CRLF) s)) (\<lambda>resp s.
       (Ok (), s\<lparr>trace := trace s @ [End]\<rparr>))"

text \<open>Steps 1 to 5, and steps 7 to 9.\<close>

definition beforeRcpt ::
  "platform \<Rightarrow> config \<Rightarrow> message \<Rightarrow> session \<Rightarrow> response step \<times> session" where
  "beforeRcpt pf cfg m s =
     andThen (banner s) (\<lambda>resp s.
       andThen (greet cfg s) (\<lambda>resp s.
         andThen (startTls pf cfg resp s) (\<lambda>resp s.
           andThen (authenticate cfg resp s) (\<lambda>resp s.
             mailFrom m s))))"

definition afterRcpt :: "platform \<Rightarrow> message \<Rightarrow> session \<Rightarrow> unit step \<times> session" where
  "afterRcpt pf m s =
     andThen (dataCommand s) (\<lambda>resp s.
       andThen (sendBody pf m s) (\<lambda>resp s.
         quit s))"

text \<open>
  The server as \<open>send\<close> meets it: how the awaited responses settle, and whether the
  handshake completes.
\<close>

record server =
  responses :: "outcome list"
  handshakes :: bool

text \<open>The session before the socket exists, and the creation of the socket.\<close>

definition newSession :: "server \<Rightarrow> session" where
  "newSession srv =
     \<lparr>trace = [], rebound = False, replies = responses srv, handshake = handshakes srv,
      destroyed = False\<rparr>"

definition connect :: "config \<Rightarrow> session \<Rightarrow> session" where
  "connect cfg s = s\<lparr>trace := trace s @ [Connect (secure cfg) (port cfg) (host cfg)]\<rparr>"

text \<open>
  \<open>send\<close>: the result (\<open>Ok ()\<close> for \<open>{ ok: true, message: "Enviado" }\<close>) and the
  session it leaves. The two checks come before the socket is created.
\<close>

definition send ::
  "platform \<Rightarrow> server \<Rightarrow> config \<Rightarrow> message \<Rightarrow> unit step \<times> session" where
  "send pf srv cfg m =
     (let recipients = recipientsOf m
      in if \<not> truthy (mFrom m) then (Threw FromRequired, newSession srv)
         else if recipients = [] then (Threw RecipientRequired, newSession srv)
         else
           andThen (beforeRcpt pf cfg m (connect cfg (newSession srv))) (\<lambda>resp s.
             andThen (rcptTo recipients s) (\<lambda>_ s.
               afterRcpt pf m s)))"

section \<open>The socket's \<open>data\<close> listeners and the STARTTLS upgrade\<close>

text \<open>
  The listeners of the \<open>data\<close> event, on the object \<open>socket\<close> and on the TLS socket
  \<open>secured\<close>: handles of line readers, in registration order. Each reader has its
  closure state and the state its listeners act on. \<open>hijacked\<close>: the assignments
  \<open>socket.on = secured.on.bind(secured)\<close> (and \<open>write\<close>, \<open>once\<close>, \<open>setTimeout\<close>,
  \<open>removeAllListeners\<close>) have been made. \<open>socket.off\<close> is not among them.
\<close>

record 's transport =
  hijacked :: bool
  socketData :: "nat list"
  securedData :: "nat list"
  readers :: "nat \<Rightarrow> 's lineReader"
  worlds :: "nat \<Rightarrow> 's"
  created :: nat

definition newTransport :: "'s \<Rightarrow> 's transport" where
  "newTransport s0 =
     \<lparr>hijacked = False, socketData = [], securedData = [],
      readers = (\<lambda>h. newLineReader), worlds = (\<lambda>h. s0), created = 0\<rparr>"

text \<open>\<open>socket.on("data", onData)\<close>: after the upgrade it is \<open>secured.on\<close>.\<close>

definition socketOn :: "nat \<Rightarrow> 's transport \<Rightarrow> 's transport" where
  "socketOn h t =
     (if hijacked t then t\<lparr>securedData := securedData t @ [h]\<rparr>
      else t\<lparr>socketData := socketData t @ [h]\<rparr>)"

text \<open>
  \<open>socket.off("data", onData)\<close>: the method \<open>socket\<close> inherits, acting on the listeners
  of \<open>socket\<close>, before and after the upgrade.
\<close>

definition socketOff :: "nat \<Rightarrow> 's transport \<Rightarrow> 's transport" where
  "socketOff h t = t\<lparr>socketData := remove1 h (socketData t)\<rparr>"

text \<open>\<open>createLineReader(socket)\<close>: the new closure, subscribed with \<open>socket.on\<close>.\<close>

definition createLineReader :: "'s transport \<Rightarrow> nat \<times> 's transport" where
  "createLineReader t =
     (let h = created t
      in (h, socketOn h (t\<lparr>readers := (readers t)(h := newLineReader), created := Suc h\<rparr>)))"

text \<open>The two methods of the object \<open>createLineReader\<close> returns.\<close>

definition readerOnLine ::
  "nat \<Rightarrow> (string \<Rightarrow> 's \<Rightarrow> 's) \<Rightarrow> 's transport \<Rightarrow> 's transport" where
  "readerOnLine h fn t = t\<lparr>readers := (readers t)(h := addListener fn (readers t h))\<rparr>"

definition readerRemove :: "nat \<Rightarrow> 's transport \<Rightarrow> 's transport" where
  "readerRemove h t = socketOff h t"

text \<open>
  A \<open>data\<close> event on one of the two objects: \<open>onData\<close> of every reader subscribed there
  when the event is emitted, in registration order.
\<close>

definition deliver :: "string \<Rightarrow> 's transport \<Rightarrow> nat \<Rightarrow> 's transport" where
  "deliver chunk t h =
     (case onData (readers t h) chunk (worlds t h) of
        (r', w') \<Rightarrow> t\<lparr>readers := (readers t)(h := r'), worlds := (worlds t)(h := w')\<rparr>)"

definition emitData :: "endpoint \<Rightarrow> string \<Rightarrow> 's transport \<Rightarrow> 's transport" where
  "emitData ep chunk t =
     foldl (deliver chunk) t (case ep of Socket \<Rightarrow> socketData t | Secured \<Rightarrow> securedData t)"

text \<open>
  The upgrade of \<open>send\<close>: \<open>socket.removeAllListeners("data")\<close>, then the assignments.
  From then on the server's data arrives as \<open>data\<close> events of \<open>secured\<close>.
\<close>

definition upgradeTransport :: "'s transport \<Rightarrow> 's transport" where
  "upgradeTransport t = t\<lparr>socketData := [], hijacked := True\<rparr>"

definition liveEndpoint :: "'s transport \<Rightarrow> endpoint" where
  "liveEndpoint t = (if hijacked t then Secured else Socket)"

section \<open>Notions used in the statements, and example sessions\<close>

text \<open>The object whose \<open>write\<close> method \<open>socket.write\<close> is at the moment.\<close>

definition endpointOf :: "session \<Rightarrow> endpoint" where
  "endpointOf s = (if rebound s then Secured else Socket)"

text \<open>The socket has been created: the first action is the \<open>connect\<close>.\<close>

definition connected :: "session \<Rightarrow> bool" where
  "connected s = (case trace s of [] \<Rightarrow> False
                  | a # rest \<Rightarrow> (case a of Connect sec p h \<Rightarrow> True | _ \<Rightarrow> False))"

text \<open>
  The transport is open: the socket exists, \<open>socket.end()\<close> has not been called, and
  the socket has not been destroyed.
\<close>

definition transportOpen :: "session \<Rightarrow> bool" where
  "transportOpen s = (connected s \<and> End \<notin> set (trace s) \<and> \<not> destroyed s)"

text \<open>
  The errors of a step that fails on the server's reply: a code other than the required
  one, or no AUTH mechanism among the advertised ones.
\<close>

fun replyFailure :: "error \<Rightarrow> bool" where
  "replyFailure FromRequired = False"
| "replyFailure RecipientRequired = False"
| "replyFailure (ReadFailed err) = False"
| "replyFailure e = True"

text \<open>The error of a wait that the socket's \<open>error\<close> event rejected.\<close>

fun isTransportError :: "error \<Rightarrow> bool" where
  "isTransportError (ReadFailed (TransportError e)) = True"
| "isTransportError e = False"

definition failedTransport :: "'a step \<Rightarrow> bool" where
  "failedTransport r = (case r of Threw e \<Rightarrow> isTransportError e | _ \<Rightarrow> False)"

text \<open>
  What the steps before \<open>socket.end()\<close> keep: the socket exists, \<open>end\<close> has not been
  called, and the socket is destroyed exactly when the step threw the socket's own
  error.
\<close>

definition leftOpen :: "'a step \<times> session \<Rightarrow> bool" where
  "leftOpen m = (connected (snd m) \<and> End \<notin> set (trace (snd m)) \<and>
                 destroyed (snd m) = failedTransport (fst m))"

text \<open>
  The same for the steps that end with \<open>socket.end()\<close>: a run that returns has it
  as its last action; a run that throws or waits for ever has not called it.
\<close>

definition endedIffOk :: "'a step \<times> session \<Rightarrow> bool" where
  "endedIffOk m = (connected (snd m) \<and> destroyed (snd m) = failedTransport (fst m) \<and>
                   (case fst m of Ok a \<Rightarrow> last (trace (snd m)) = End
                    | _ \<Rightarrow> End \<notin> set (trace (snd m))))"

text \<open>
  The rule of dot-stuffing in the specification's words, for one line: a line that
  begins with a dot has a second dot prepended; any other line is unchanged.
\<close>

definition stuffLine :: "string \<Rightarrow> string" where
  "stuffLine l = (if prefix ''.'' l then CHR ''.'' # l else l)"

text \<open>
  The lines the loop of \<open>onData\<close> takes from a buffer (what a listener that only
  records is given), and what the loop leaves in the buffer.
\<close>

definition takeLines :: "string \<Rightarrow> string list" where
  "takeLines b = snd (drain \<lparr>buffer = b, listeners = [logLine]\<rparr> [])"

definition leftOver :: "string \<Rightarrow> string" where
  "leftOver b =
     buffer (fst (drain \<lparr>buffer = b, listeners = [logLine]\<rparr> ([] :: string list)))"

text \<open>
  The lines of a document: the text between the line breaks that \<open>/\r?\n/g\<close>
  matches.
\<close>

fun splitBreaks :: "string \<Rightarrow> string list" where
  "splitBreaks [] = [[]]"
| "splitBreaks (c # cs) =
     (if prefix CRLF (c # cs) then [] # splitBreaks (drop 1 cs)
      else if c = LF then [] # splitBreaks cs
      else (case splitBreaks cs of l # ls \<Rightarrow> (c # l) # ls | [] \<Rightarrow> [[c]]))"

text \<open>
  A platform for the examples: on ASCII text \<open>toUpperCase\<close> is the ASCII upper case.
\<close>

definition examplePlatform :: platform where
  "examplePlatform =
     \<lparr>toUpperCase = map upperAscii, utcDate = ''Mon, 02 Nov 2026 10:00:00 GMT'',
      nowMs = ''1793613600000'', randomId = ''k3j9x'', randomAlt = ''a1b2c'',
      randomMixed = ''m4n5o''\<rparr>"

definition exampleConfig :: config where
  "exampleConfig =
     \<lparr>host = ''mx.example'', port = 587, secure = False, user = None, pass = None,
      helo = ''localhost''\<rparr>"

definition exampleCredentials :: config where
  "exampleCredentials = exampleConfig\<lparr>user := Some ''user'', pass := Some ''pass''\<rparr>"

text \<open>Three recipients: two in \<open>to\<close>, one, as a plain string, in \<open>cc\<close>.\<close>

definition exampleMessage :: message where
  "exampleMessage =
     \<lparr>mFrom = Some ''a@x'', mTo = Many [''b@y'', ''c@z''], mCc = Single ''d@w'',
      mBcc = Undefined, subject = Some ''Hi'', mText = Some ''Hello'', html = None,
      attachments = []\<rparr>"

definition reply :: "nat \<Rightarrow> string list \<Rightarrow> outcome" where
  "reply c ls = Resolved \<lparr>code = c, lines = ls\<rparr>"

text \<open>A server that answers the RCPT TO of the second recipient with 550.\<close>

definition rejectingServer :: server where
  "rejectingServer =
     \<lparr>responses = [reply 220 [''220 host ESMTP''], reply 250 [''250 host''],
                   reply 250 [''250 ok''], reply 250 [''250 ok''],
                   reply 550 [''550 no such user''], reply 250 [''250 ok'']],
      handshakes = True\<rparr>"

text \<open>
  A server that accepts the first recipient and then falls silent, and one whose
  connection breaks in the same place.
\<close>

definition silentServer :: server where
  "silentServer =
     \<lparr>responses = [reply 220 [''220 host ESMTP''], reply 250 [''250 host''],
                   reply 250 [''250 ok''], reply 250 [''250 ok''], Rejected TimeoutError],
      handshakes = True\<rparr>"

definition brokenServer :: server where
  "brokenServer =
     \<lparr>responses = [reply 220 [''220 host ESMTP''], reply 250 [''250 host''],
                   reply 250 [''250 ok''], reply 250 [''250 ok''],
                   Rejected (TransportError ''read ECONNRESET'')],
      handshakes = True\<rparr>"

text \<open>A server that accepts the message.\<close>

definition acceptingServer :: server where
  "acceptingServer =
     \<lparr>responses = [reply 220 [''220 host ESMTP''], reply 250 [''250 host''],
                   reply 250 [''250 ok''], reply 250 [''250 ok''], reply 250 [''250 ok''],
                   reply 251 [''251 forwarded''], reply 354 [''354 go''],
                   reply 250 [''250 queued''], reply 221 [''221 bye'']],
      handshakes = True\<rparr>"

text \<open>A session in the AUTH step, and three EHLO responses.\<close>

definition authSession :: session where
  "authSession =
     \<lparr>trace = [], rebound = True, replies = [reply 235 [''235 ok'']], handshake = True,
      destroyed = False\<rparr>"

definition ehloBoth :: response where
  "ehloBoth = \<lparr>code = 250, lines = [''250-mx.example'', ''250 AUTH PLAIN LOGIN'']\<rparr>"

definition ehloLoginOnly :: response where
  "ehloLoginOnly = \<lparr>code = 250, lines = [''250-mx.example'', ''250 AUTH LOGIN'']\<rparr>"

definition ehloNoAuth :: response where
  "ehloNoAuth = \<lparr>code = 250, lines = [''250-mx.example'', ''250 SIZE 1000'']\<rparr>"

text \<open>
  The scenario of a server that offers STARTTLS and AUTH: two recipients, credentials.
\<close>

definition upgradingServer :: server where
  "upgradingServer =
     \<lparr>responses = [reply 220 [''220 host ESMTP''],
                   reply 250 [''250-STARTTLS'', ''250 AUTH PLAIN LOGIN''],
                   reply 220 [''220 go ahead''], reply 250 [''250 AUTH PLAIN''],
                   reply 235 [''235 ok''], reply 250 [''250 ok''], reply 250 [''250 ok''],
                   reply 250 [''250 ok''], reply 354 [''354 go''], reply 250 [''250 queued''],
                   reply 221 [''221 bye'']],
      handshakes = True\<rparr>"

definition twoRecipients :: message where
  "twoRecipients = exampleMessage\<lparr>mCc := Undefined\<rparr>"

text \<open>
  A message whose text has a line \<open>.leading\<close> and a line that is only a dot.
\<close>

definition dottedMessage :: message where
  "dottedMessage =
     exampleMessage\<lparr>mText := Some (''Hello'' @ [LF] @ ''.leading'' @ [LF] @ ''.'' @ [LF] @ ''bye'')\<rparr>"

section \<open>Properties of the line reader\<close>

lemma indexOf_append:
  "indexOf s p = Some i \<Longrightarrow> indexOf (s @ t) p = Some i"
proof (induction s arbitrary: i)
  case Nil
  then show ?case by (cases t) (simp_all split: if_splits)
next
  case (Cons c cs)
  show ?case
  proof (cases "prefix p (c # cs)")
    case True
    with Cons.prems have "i = 0" by simp
    moreover from True have "prefix p ((c # cs) @ t)" by (rule prefix_prefix)
    ultimately show ?thesis by simp
  next
    case False
    with Cons.prems obtain j where j: "indexOf cs p = Some j" "i = Suc j" by auto
    from indexOf_bound [OF j(1)] have "length p \<le> length (c # cs)" by simp
    with False have "\<not> prefix p ((c # cs) @ t)"
      by (metis prefix_length_prefix prefixI)
    with j Cons.IH show ?thesis by simp
  qed
qed

lemma emitLine_buffer [simp]: "emitLine (r\<lparr>buffer := b\<rparr>) = emitLine r"
  by (simp add: emitLine_def fun_eq_iff)

lemma drain_no_crlf: "indexOf (buffer r) CRLF = None \<Longrightarrow> drain r s = (r, s)"
  by (simp add: drain.simps [of r])

text \<open>
  Text that arrives later does not change what the loop does with the text it already
  has: draining \<open>buffer @ t\<close> is draining \<open>buffer\<close>, appending \<open>t\<close> to what is left,
  and draining again.
\<close>

lemma drain_append:
  "drain (r\<lparr>buffer := buffer r @ t\<rparr>) s =
   (case drain r s of (r', s') \<Rightarrow> drain (r'\<lparr>buffer := buffer r' @ t\<rparr>) s')"
proof (induction r s rule: drain.induct)
  case (1 r s)
  show ?case
  proof (cases "indexOf (buffer r) CRLF")
    case None
    then show ?thesis by (simp add: drain_no_crlf)
  next
    case (Some idx)
    let ?r' = "r\<lparr>buffer := drop (idx + 2) (buffer r)\<rparr>"
    let ?s' = "emitLine r (take idx (buffer r)) s"
    from indexOf_bound [OF Some] have len: "idx + 2 \<le> length (buffer r)" by simp
    from Some have dr: "drain r s = drain ?r' ?s'" by (simp add: drain.simps [of r])
    from indexOf_append [OF Some] have "indexOf (buffer r @ t) CRLF = Some idx" .
    then have "drain (r\<lparr>buffer := buffer r @ t\<rparr>) s =
               drain (?r'\<lparr>buffer := buffer ?r' @ t\<rparr>) ?s'"
      using len by (subst drain.simps) simp
    also have "\<dots> = (case drain ?r' ?s' of (r', s') \<Rightarrow> drain (r'\<lparr>buffer := buffer r' @ t\<rparr>) s')"
      using "1.IH" [OF Some] .
    finally show ?thesis by (simp only: dr)
  qed
qed

lemma feed_drain:
  "(case drain r s of (r', s') \<Rightarrow> feed r' chunks s') =
   drain (r\<lparr>buffer := buffer r @ concat (map toStringUtf8 chunks)\<rparr>) s"
proof (induction chunks arbitrary: r s)
  case Nil
  show ?case by (simp split: prod.splits)
next
  case (Cons c cs)
  let ?r1 = "r\<lparr>buffer := buffer r @ toStringUtf8 c\<rparr>"
  have "(case drain r s of (r', s') \<Rightarrow> feed r' (c # cs) s') =
        (case drain r s of (r', s') \<Rightarrow>
           (case drain (r'\<lparr>buffer := buffer r' @ toStringUtf8 c\<rparr>) s' of
              (r'', s'') \<Rightarrow> feed r'' cs s''))"
    by (simp add: onData_def split: prod.splits)
  also have "\<dots> = (case drain ?r1 s of (r'', s'') \<Rightarrow> feed r'' cs s'')"
    by (simp add: drain_append [of r "toStringUtf8 c" s] split: prod.splits)
  also have "\<dots> = drain (?r1\<lparr>buffer := buffer ?r1 @ concat (map toStringUtf8 cs)\<rparr>) s"
    by (rule Cons.IH)
  finally show ?case by simp
qed

lemma feed_whole:
  assumes "indexOf (buffer r) CRLF = None"
  shows "feed r chunks s =
         drain (r\<lparr>buffer := buffer r @ concat (map toStringUtf8 chunks)\<rparr>) s"
  using feed_drain [where r = r and s = s and chunks = chunks]
  by (simp add: drain_no_crlf [OF assms])

text \<open>Bytes below 0x80 decode to themselves, one by one.\<close>

lemma toStringUtf8_ascii:
  "\<forall>c \<in> set bs. (of_char c :: nat) < 0x80 \<Longrightarrow> toStringUtf8 bs = bs"
  by (induction bs) (simp_all add: utf8Step_def)

text \<open>Every split of a 7-bit stream is at character boundaries.\<close>

lemma ascii_atCharBoundaries:
  assumes "\<forall>c \<in> set (concat chunks). (of_char c :: nat) < 0x80"
  shows "atCharBoundaries chunks"
proof -
  from assms have "toStringUtf8 (concat chunks) = concat chunks"
    by (rule toStringUtf8_ascii)
  moreover from assms have "map toStringUtf8 chunks = chunks"
    by (intro map_idI toStringUtf8_ascii) auto
  ultimately show ?thesis by (simp add: atCharBoundaries_def)
qed

lemmas reader_defs = onData_def addListener_def newLineReader_def emitLine_def logLine_def
  utf8Step_def inRange_def REPLACEMENT_def atCharBoundaries_def

text \<open>
  Claim C5 (for every byte stream and every split into chunks, the same lines as for the
  whole stream): the code differs where a chunk boundary cuts a character. The two bytes
  C3 A9 of one character are decoded chunk by chunk into two U+FFFD; delivered as one
  chunk they are decoded into the character. The line emitted differs.
\<close>

theorem lineReader_split_character_changes_line:
  "snd (feed (addListener logLine newLineReader) [[CHR 0xC3], [CHR 0xA9, CR, LF]] []) \<noteq>
   snd (feed (addListener logLine newLineReader) [concat [[CHR 0xC3], [CHR 0xA9, CR, LF]]] [])"
  by (simp add: reader_defs drain.simps)

text \<open>
  For every byte stream and every split of it into chunks at character boundaries
  (every split of a 7-bit stream is one, see \<open>ascii_atCharBoundaries\<close>), a newly
  created line reader, whatever its listeners, calls them with the same lines in the
  same order, and is left with the same buffer, as when the stream is delivered as one
  chunk. A CRLF may straddle a boundary.
\<close>

theorem lineReader_chunk_invariance:
  assumes "atCharBoundaries chunks" and "buffer r = []"
  shows "feed r chunks s = feed r [concat chunks] s"
proof -
  from assms(2) have "indexOf (buffer r) CRLF = None" by simp
  from feed_whole [OF this] assms(1) show ?thesis
    by (simp add: atCharBoundaries_def onData_def split: prod.splits)
qed

text \<open>
  A 7-bit stream cut inside the CRLF of its first line: two lines, whether the stream
  comes in two chunks or in one.
\<close>

theorem lineReader_chunk_invariance_witness:
  "atCharBoundaries [''250-a'' @ [CR], LF # ''250 b'' @ CRLF @ ''25''] \<and>
   buffer (addListener logLine newLineReader) = [] \<and>
   feed (addListener logLine newLineReader)
        [''250-a'' @ [CR], LF # ''250 b'' @ CRLF @ ''25''] [] =
   feed (addListener logLine newLineReader)
        [concat [''250-a'' @ [CR], LF # ''250 b'' @ CRLF @ ''25'']] [] \<and>
   snd (feed (addListener logLine newLineReader)
        [''250-a'' @ [CR], LF # ''250 b'' @ CRLF @ ''25''] []) = [''250-a'', ''250 b'']"
proof -
  have b: "atCharBoundaries [''250-a'' @ [CR], LF # ''250 b'' @ CRLF @ ''25'']"
    by (simp add: reader_defs)
  have e: "buffer (addListener logLine newLineReader :: string list lineReader) = []"
    by (simp add: reader_defs)
  from lineReader_chunk_invariance [OF b e, of "[]"] b e show ?thesis
    by (simp add: reader_defs drain.simps)
qed

section \<open>Properties of \<open>readResponse\<close>\<close>

lemma wlines_onLine: "wlines (onLine l w) = wlines w @ [l]"
  by (simp add: onLine_def Let_def split: option.splits prod.splits)

lemma wlines_fold_onLine: "wlines (fold onLine ls w) = wlines w @ ls"
  by (induction ls arbitrary: w) (simp_all add: wlines_onLine)

lemma resolved_onLine_nonterminal:
  "\<not> isTerminal l \<Longrightarrow> resolved (onLine l w) = resolved w"
  by (auto simp: onLine_def isTerminal_def Let_def split: option.splits prod.splits)

lemma resolved_fold_nonterminal:
  "\<forall>l \<in> set ls. \<not> isTerminal l \<Longrightarrow> resolved (fold onLine ls w) = resolved w"
  by (induction ls arbitrary: w) (simp_all add: resolved_onLine_nonterminal)

lemma matchReply_code:
  "matchReply l = Some (c, sep) \<Longrightarrow> c = parseInt (take 3 l)"
  by (auto simp: matchReply_def split: list.splits if_splits)

lemma resolved_onLine_terminal:
  "isTerminal t \<Longrightarrow> resolved w = None \<Longrightarrow>
   resolved (onLine t w) = Some (parseInt (take 3 t))"
  by (auto simp: onLine_def isTerminal_def Let_def dest: matchReply_code
      split: option.splits prod.splits)

lemma onLine_malformed:
  "\<not> isWellFormed l \<Longrightarrow> onLine l w = w\<lparr>wlines := wlines w @ [l]\<rparr>"
  by (cases "matchReply l") (simp_all add: onLine_def isWellFormed_def)

lemma fold_malformed:
  "\<forall>l \<in> set ls. \<not> isWellFormed l \<Longrightarrow> fold onLine ls w = w\<lparr>wlines := wlines w @ ls\<rparr>"
  by (induction ls arbitrary: w) (simp_all add: onLine_malformed)

lemmas reply_defs = matchReply_def isDigit_def parseInt_def noLineTerminator_def
  includes_str_def isTerminal_def isWellFormed_def onLine_def newWaiting_def readResponse_def

text \<open>
  Claim C3, as stated (a line that fails the pattern is appended only if a well-formed
  line has been seen): refuted. The first line of a response, not well-formed, is
  appended although \<open>lines\<close> holds no line at all.
\<close>

theorem malformed_first_line_counterexample:
  "\<not> isWellFormed ''ESMTP ready'' \<and>
   \<not> list_ex isWellFormed (wlines newWaiting) \<and>
   wlines (onLine ''ESMTP ready'' newWaiting) = wlines newWaiting @ [''ESMTP ready'']"
  by (simp add: reply_defs)

text \<open>
  Claim C3, amended: every line is appended to the response's lines, in arrival order,
  whether it matches the pattern or not and whatever came before it; lines that fail
  the pattern never resolve the wait and leave the code as it was.
\<close>

theorem every_line_is_retained:
  "wlines (fold onLine ls w) = wlines w @ ls \<and>
   ((\<forall>l \<in> set ls. \<not> isWellFormed l) \<longrightarrow>
      resolved (fold onLine ls w) = resolved w \<and> wcode (fold onLine ls w) = wcode w)"
  by (simp add: wlines_fold_onLine fold_malformed)

text \<open>Two lines that fail the pattern, at the start of a response.\<close>

theorem every_line_is_retained_witness:
  "\<not> isWellFormed ''ESMTP ready'' \<and> \<not> isWellFormed ''hello'' \<and>
   wlines (fold onLine [''ESMTP ready'', ''hello''] newWaiting) = [''ESMTP ready'', ''hello''] \<and>
   resolved (fold onLine [''ESMTP ready'', ''hello''] newWaiting) = None \<and>
   wcode (fold onLine [''ESMTP ready'', ''hello''] newWaiting) = None"
proof -
  have h: "\<forall>l \<in> set [''ESMTP ready'', ''hello'']. \<not> isWellFormed l"
    by (simp add: reply_defs)
  from every_line_is_retained [of "[''ESMTP ready'', ''hello'']" newWaiting] h
  show ?thesis by (simp add: newWaiting_def)
qed

text \<open>
  The listener \<open>onLine\<close>: while no terminal line (well-formed, space after the code)
  has been handed to it, the wait is not resolved; the terminal line \<open>t\<close> that follows
  lines \<open>pre\<close> without one resolves it, with the numeric prefix of \<open>t\<close> as code, and
  \<open>lines\<close> is \<open>pre @ [t]\<close> at that moment.
\<close>

lemma listener_resolves_at_terminal_line:
  "((\<forall>l \<in> set pre. \<not> isTerminal l) \<longrightarrow> resolved (fold onLine pre newWaiting) = None) \<and>
   ((\<forall>l \<in> set pre. \<not> isTerminal l) \<and> isTerminal t \<longrightarrow>
      resolved (fold onLine (pre @ [t]) newWaiting) = Some (parseInt (take 3 t)) \<and>
      wlines (fold onLine (pre @ [t]) newWaiting) = pre @ [t])"
  by (simp add: resolved_fold_nonterminal wlines_fold_onLine wlines_onLine
      resolved_onLine_terminal newWaiting_def)

text \<open>
  The three lines \<open>250-first\<close>, \<open>250-second\<close>, \<open>250 third\<close>, one chunk each: pending
  after the first and after the second, resolved after the third.
\<close>

lemma readResponse_three_lines:
  "readResponse [Data (''250-first'' @ CRLF)] = (None, []) \<and>
   readResponse [Data (''250-first'' @ CRLF), Data (''250-second'' @ CRLF)] = (None, []) \<and>
   readResponse [Data (''250-first'' @ CRLF), Data (''250-second'' @ CRLF),
                 Data (''250 third'' @ CRLF)] =
     (Some (Resolved \<lparr>code = 250, lines = [''250-first'', ''250-second'', ''250 third'']\<rparr>), [])"
  by (simp add: reader_defs reply_defs drain.simps)

subsection \<open>From the listener to \<open>readResponse\<close>\<close>

lemma listeners_drain: "listeners (fst (drain r s)) = listeners r"
proof (induction r s rule: drain.induct)
  case (1 r s)
  show ?case
  proof (cases "indexOf (buffer r) CRLF")
    case None
    then show ?thesis by (simp add: drain_no_crlf)
  next
    case (Some idx)
    with "1.IH" [OF Some] show ?thesis by (simp add: drain.simps [of r])
  qed
qed

text \<open>
  With one listener, the loop hands it the lines one after the other: whatever the
  listener does, it is folded over the lines a recording listener would record.
\<close>

lemma drain_single_listener_acc:
  "listeners r = [fn] \<Longrightarrow>
   (\<exists>ls. snd (drain \<lparr>buffer = buffer r, listeners = [logLine]\<rparr> acc) = acc @ ls \<and>
         snd (drain r s) = fold fn ls s) \<and>
   buffer (fst (drain r s)) =
     buffer (fst (drain \<lparr>buffer = buffer r, listeners = [logLine]\<rparr> acc))"
proof (induction r s arbitrary: acc rule: drain.induct)
  case (1 r s)
  let ?g = "\<lparr>buffer = buffer r, listeners = [logLine]\<rparr>"
  show ?case
  proof (cases "indexOf (buffer r) CRLF")
    case None
    then show ?thesis by (simp add: drain_no_crlf)
  next
    case (Some idx)
    let ?r' = "r\<lparr>buffer := drop (idx + 2) (buffer r)\<rparr>"
    let ?g' = "\<lparr>buffer = buffer ?r', listeners = [logLine]\<rparr>"
    let ?l = "take idx (buffer r)"
    from "1.prems" have l': "listeners ?r' = [fn]" by simp
    have d1: "drain r s = drain ?r' (fn ?l s)"
      using Some "1.prems" by (simp add: drain.simps [of r] emitLine_def)
    have d2: "drain ?g acc = drain ?g' (acc @ [?l])"
      using Some by (simp add: drain.simps [of ?g] emitLine_def logLine_def)
    have e: "emitLine r ?l s = fn ?l s"
      using "1.prems" by (simp add: emitLine_def)
    have "(\<exists>ls. snd (drain ?g' (acc @ [?l])) = (acc @ [?l]) @ ls \<and>
                snd (drain ?r' (fn ?l s)) = fold fn ls (fn ?l s)) \<and>
          buffer (fst (drain ?r' (fn ?l s))) = buffer (fst (drain ?g' (acc @ [?l])))"
      using "1.IH" [OF Some l', of "acc @ [?l]"] by (simp only: e)
    then obtain ls where ls: "snd (drain ?g' (acc @ [?l])) = (acc @ [?l]) @ ls"
        "snd (drain ?r' (fn ?l s)) = fold fn ls (fn ?l s)"
      and b: "buffer (fst (drain ?r' (fn ?l s))) = buffer (fst (drain ?g' (acc @ [?l])))"
      by (elim conjE exE)
    from ls have "snd (drain ?g acc) = acc @ (?l # ls) \<and> snd (drain r s) = fold fn (?l # ls) s"
      by (simp add: d1 d2)
    with b show ?thesis by (auto simp: d1 d2)
  qed
qed

lemma drain_single_listener:
  assumes "listeners r = [fn]"
  shows "snd (drain r s) = fold fn (takeLines (buffer r)) s"
    and "buffer (fst (drain r s)) = leftOver (buffer r)"
  using drain_single_listener_acc [OF assms, of "[]" s]
  by (auto simp: takeLines_def leftOver_def)

lemma onData_onLine:
  assumes "listeners r = [onLine]"
  shows "snd (onData r chunk w) = fold onLine (takeLines (buffer r @ toStringUtf8 chunk)) w"
    and "listeners (fst (onData r chunk w)) = [onLine]"
proof -
  let ?r = "r\<lparr>buffer := buffer r @ toStringUtf8 chunk\<rparr>"
  have l: "listeners ?r = [onLine]" using assms by simp
  from drain_single_listener(1) [OF l, of w]
  show "snd (onData r chunk w) = fold onLine (takeLines (buffer r @ toStringUtf8 chunk)) w"
    by (simp add: onData_def)
  show "listeners (fst (onData r chunk w)) = [onLine]"
    by (simp add: onData_def listeners_drain assms)
qed

lemma awaitSettled_lines:
  assumes "listeners r = [onLine]"
    and "awaitSettled r (fold onLine seen newWaiting) (map Data chunks) = (Some (Resolved resp), rest)"
  shows "\<exists>more. lines resp = seen @ more \<and>
           resolved (fold onLine (seen @ more) newWaiting) = Some (code resp)"
  using assms
proof (induction chunks arbitrary: r seen)
  case Nil
  then show ?case by simp
next
  case (Cons c cs)
  obtain r' w' where ow: "onData r c (fold onLine seen newWaiting) = (r', w')"
    by (cases "onData r c (fold onLine seen newWaiting)")
  let ?new = "takeLines (buffer r @ toStringUtf8 c)"
  from onData_onLine [OF Cons.prems(1), of c "fold onLine seen newWaiting"] ow
  have w': "w' = fold onLine (seen @ ?new) newWaiting" and l': "listeners r' = [onLine]"
    by simp_all
  show ?case
  proof (cases "resolved w'")
    case None
    with Cons.prems(2) ow
    have "awaitSettled r' (fold onLine (seen @ ?new) newWaiting) (map Data cs) =
            (Some (Resolved resp), rest)"
      by (simp add: w')
    from Cons.IH [OF l' this] obtain more where
      "lines resp = (seen @ ?new) @ more"
      "resolved (fold onLine ((seen @ ?new) @ more) newWaiting) = Some (code resp)"
      by blast
    then show ?thesis by (intro exI [of _ "?new @ more"]) simp
  next
    case (Some cd)
    with Cons.prems(2) ow have "resp = \<lparr>code = cd, lines = wlines w'\<rparr>" by simp
    with Some w' show ?thesis
      by (intro exI [of _ ?new]) (simp add: wlines_fold_onLine newWaiting_def)
  qed
qed

lemma resolved_first_terminal:
  assumes "resolved (fold onLine ls newWaiting) = Some c"
  shows "\<exists>pre t post. ls = pre @ t # post \<and> (\<forall>l \<in> set pre. \<not> isTerminal l) \<and>
           isTerminal t \<and> c = parseInt (take 3 t)"
proof -
  have "\<exists>l \<in> set ls. isTerminal l"
  proof (rule ccontr)
    assume "\<not> (\<exists>l \<in> set ls. isTerminal l)"
    then have "resolved (fold onLine ls newWaiting) = None"
      by (simp add: resolved_fold_nonterminal newWaiting_def)
    with assms show False by simp
  qed
  from split_list_first_prop [OF this] obtain pre t post where
    d: "ls = pre @ t # post" and t: "isTerminal t" and pre: "\<forall>l \<in> set pre. \<not> isTerminal l"
    by blast
  have r1: "resolved (fold onLine (pre @ [t]) newWaiting) = Some (parseInt (take 3 t))"
    using pre t by (simp add: resolved_fold_nonterminal resolved_onLine_terminal newWaiting_def)
  have keep: "\<And>w ls. resolved w = Some k \<Longrightarrow> resolved (fold onLine ls w) = Some k" for k
  proof -
    fix w :: waiting and ls :: "string list"
    show "resolved w = Some k \<Longrightarrow> resolved (fold onLine ls w) = Some k"
      by (induction ls arbitrary: w)
         (auto simp: onLine_def Let_def split: option.splits prod.splits)
  qed
  have "fold onLine ls newWaiting = fold onLine post (fold onLine (pre @ [t]) newWaiting)"
    by (simp add: d)
  with keep [OF r1, of post] assms have "c = parseInt (take 3 t)" by simp
  with d t pre show ?thesis by blast
qed

text \<open>
  Through \<open>readResponse\<close>, for any chunks: a response that resolves holds a terminal
  line; the code is the numeric prefix of the first one; the lines before it are not
  terminal. Lines that the same chunk carries behind the terminal line are in \<open>lines\<close>
  too (\<open>post\<close>): the loop of \<open>onData\<close> hands them to \<open>onLine\<close> before the awaiting
  code runs.
\<close>

lemma readResponse_resolved_shape:
  assumes "readResponse (map Data chunks) = (Some (Resolved resp), rest)"
  shows "\<exists>pre t post. lines resp = pre @ t # post \<and> (\<forall>l \<in> set pre. \<not> isTerminal l) \<and>
           isTerminal t \<and> code resp = parseInt (take 3 t)"
proof -
  have l: "listeners (addListener onLine newLineReader :: waiting lineReader) = [onLine]"
    by (simp add: addListener_def newLineReader_def)
  from assms have "awaitSettled (addListener onLine newLineReader) (fold onLine [] newWaiting)
      (map Data chunks) = (Some (Resolved resp), rest)"
    by (simp add: readResponse_def)
  from awaitSettled_lines [OF l this] obtain more where
    "lines resp = more" "resolved (fold onLine more newWaiting) = Some (code resp)"
    by auto
  with resolved_first_terminal [of more "code resp"] show ?thesis by auto
qed

text \<open>
  The lines of a resolved response are all the complete lines of the chunks consumed,
  those behind the terminal line in its chunk included.
\<close>

lemma awaitSettled_all_lines:
  assumes "listeners r = [onLine]" and "listeners g = [logLine]" and "buffer g = buffer r"
    and "awaitSettled r (fold onLine seen newWaiting) (map Data chunks) = (Some (Resolved resp), [])"
  shows "lines resp = snd (feed g chunks seen)"
  using assms
proof (induction chunks arbitrary: r g seen)
  case Nil
  then show ?case by simp
next
  case (Cons c cs)
  let ?b = "buffer r @ toStringUtf8 c"
  let ?new = "takeLines ?b"
  obtain r' w' where ow: "onData r c (fold onLine seen newWaiting) = (r', w')"
    by (cases "onData r c (fold onLine seen newWaiting)")
  obtain g' log' where og: "onData g c seen = (g', log')"
    by (cases "onData g c seen")
  let ?r = "r\<lparr>buffer := ?b\<rparr>" and ?g = "g\<lparr>buffer := ?b\<rparr>"
  have lr: "listeners ?r = [onLine]" and lg: "listeners ?g = [logLine]"
    using Cons.prems by simp_all
  from ow drain_single_listener [OF lr, of "fold onLine seen newWaiting"]
  have w': "w' = fold onLine (seen @ ?new) newWaiting" and br: "buffer r' = leftOver ?b"
    by (simp_all add: onData_def)
  from og Cons.prems(3) drain_single_listener [OF lg, of seen]
  have log': "log' = fold logLine ?new seen" and bg: "buffer g' = leftOver ?b"
    by (simp_all add: onData_def)
  have fl: "fold logLine xs acc = acc @ xs" for xs acc
    by (induction xs arbitrary: acc) (simp_all add: logLine_def)
  from ow have l': "listeners r' = [onLine]"
    using listeners_drain [of ?r "fold onLine seen newWaiting"] lr by (simp add: onData_def)
  from og Cons.prems(3) have lg': "listeners g' = [logLine]"
    using listeners_drain [of ?g seen] lg by (simp add: onData_def)
  show ?case
  proof (cases "resolved w'")
    case None
    with Cons.prems(4) ow
    have "awaitSettled r' (fold onLine (seen @ ?new) newWaiting) (map Data cs) =
            (Some (Resolved resp), [])"
      by (simp add: w')
    from Cons.IH [OF l' lg' _ this] br bg
    have "lines resp = snd (feed g' cs (seen @ ?new))" by simp
    with og log' show ?thesis by (simp add: fl)
  next
    case (Some cd)
    with Cons.prems(4) ow have "resp = \<lparr>code = cd, lines = wlines w'\<rparr>" and "cs = []"
      by simp_all
    with og log' w' show ?thesis
      by (simp add: fl wlines_fold_onLine newWaiting_def)
  qed
qed

lemma readResponse_all_lines:
  assumes "readResponse (map Data chunks) = (Some (Resolved resp), [])"
  shows "lines resp = snd (feed (addListener logLine newLineReader) chunks [])"
proof -
  have "awaitSettled (addListener onLine newLineReader) (fold onLine [] newWaiting)
          (map Data chunks) = (Some (Resolved resp), [])"
    using assms by (simp add: readResponse_def)
  then show ?thesis
    by (rule awaitSettled_all_lines [rotated 3]) (simp_all add: addListener_def newLineReader_def)
qed

text \<open>
  Claim C6 (the resolved value ends with its terminal line: the code is the numeric
  prefix of the last line consumed, and \<open>lines\<close> holds the lines of the response): the
  code differs when the chunk that carries the terminal line carries complete lines
  behind it. \<open>onLine\<close> calls \<open>reader.remove()\<close> and \<open>resolve\<close> at the terminal line,
  but the loop of \<open>onData\<close> is still running and hands the rest of the chunk to
  \<open>onLine\<close>, which appends to the array of the resolved value. One chunk with
  \<open>250 a\<close> and \<open>550 b\<close>: the response has code 250 and both lines, the last of them
  with the numeric prefix 550. One chunk with \<open>250 ok\<close> and \<open>250-more\<close>: the last
  line of the response is not terminal. The same two lines in two chunks: the response
  is \<open>250 a\<close> alone, and the second chunk is not consumed.
\<close>

theorem readResponse_consumes_lines_after_terminal:
  "readResponse [Data (''250 a'' @ CRLF @ ''550 b'' @ CRLF)] =
     (Some (Resolved \<lparr>code = 250, lines = [''250 a'', ''550 b'']\<rparr>), []) \<and>
   isTerminal ''250 a'' \<and> parseInt (take 3 ''250 a'') = 250 \<and>
   parseInt (take 3 ''550 b'') = 550 \<and>
   readResponse [Data (''250 ok'' @ CRLF @ ''250-more'' @ CRLF)] =
     (Some (Resolved \<lparr>code = 250, lines = [''250 ok'', ''250-more'']\<rparr>), []) \<and>
   \<not> isTerminal ''250-more'' \<and>
   readResponse [Data (''250 a'' @ CRLF), Data (''550 b'' @ CRLF)] =
     (Some (Resolved \<lparr>code = 250, lines = [''250 a'']\<rparr>), [Data (''550 b'' @ CRLF)])"
  by (simp add: reader_defs reply_defs drain.simps)

section \<open>Properties of dot-stuffing\<close>

lemma no_LF_no_match:
  assumes "LF \<notin> set s"
  shows "\<not> prefix (CRLF @ ''.'') s" and "\<not> prefix (LF # ''.'') s"
  using assms set_mono_prefix [of "CRLF @ ''.''" s] set_mono_prefix [of "LF # ''.''" s]
  by auto

lemma dotStuff_no_LF: "LF \<notin> set l \<Longrightarrow> dotStuff l = l"
proof (induction l)
  case Nil
  show ?case by simp
next
  case (Cons c l)
  from no_LF_no_match [OF Cons.prems] Cons.IH Cons.prems show ?case
    by (simp only: dotStuff.simps if_False) simp
qed

lemma dotStuff_line_then_CRLF:
  "LF \<notin> set l \<Longrightarrow> dotStuff (l @ CR # LF # rest) = l @ dotStuff (CR # LF # rest)"
proof (induction l)
  case Nil
  show ?case by simp
next
  case (Cons c l)
  then have c: "c \<noteq> LF" and l: "LF \<notin> set l" by auto
  have "\<not> prefix (CRLF @ ''.'') (c # l @ CR # LF # rest)"
    using l by (cases l) simp_all
  moreover have "\<not> prefix (LF # ''.'') (c # l @ CR # LF # rest)"
    using c by simp
  ultimately have "dotStuff ((c # l) @ CR # LF # rest) = c # dotStuff (l @ CR # LF # rest)"
    by (simp only: append_Cons dotStuff.simps if_False)
  with Cons.IH [OF l] show ?case by simp
qed

lemma dotStuff_CRLF:
  "dotStuff (CR # LF # r) = CRLF @ (if prefix ''.'' r then ''.'' else []) @ dotStuff r"
proof (cases r)
  case Nil
  then show ?thesis by (simp add: prefix_Cons)
next
  case (Cons d r')
  show ?thesis
  proof (cases "d = CHR ''.''")
    case True
    with Cons show ?thesis by (simp add: prefix_Cons)
  next
    case False
    with Cons show ?thesis by (simp add: prefix_Cons)
  qed
qed

lemma prefix_dot_joinWith:
  "prefix ''.'' (joinWith CRLF (l # ls)) = prefix ''.'' l"
  by (cases ls; cases l) (auto simp: prefix_Cons)

text \<open>
  On every CRLF-normalized document, that is, lines without LF joined by CRLF,
  \<open>dotStuff\<close> prepends a second dot to every line after the first that begins with a
  dot (a line that is only a dot included) and leaves every other line, and the first
  line, unchanged.
\<close>

lemma dotStuff_lines:
  "\<forall>l \<in> set (l0 # ls). LF \<notin> set l \<Longrightarrow>
   dotStuff (joinWith CRLF (l0 # ls)) = joinWith CRLF (l0 # map stuffLine ls)"
proof (induction ls arbitrary: l0)
  case Nil
  then show ?case by (simp add: dotStuff_no_LF)
next
  case (Cons l1 ls)
  from Cons.prems have l0: "LF \<notin> set l0" and rest: "\<forall>l \<in> set (l1 # ls). LF \<notin> set l"
    by auto
  let ?J = "joinWith CRLF (l1 # ls)"
  have "dotStuff (joinWith CRLF (l0 # l1 # ls)) = l0 @ dotStuff (CR # LF # ?J)"
    using dotStuff_line_then_CRLF [OF l0, of ?J] by simp
  also have "\<dots> = l0 @ CRLF @ (if prefix ''.'' l1 then ''.'' else []) @ dotStuff ?J"
    by (simp only: dotStuff_CRLF prefix_dot_joinWith)
  also have "dotStuff ?J = joinWith CRLF (l1 # map stuffLine ls)"
    by (rule Cons.IH [OF rest])
  also have "(if prefix ''.'' l1 then ''.'' else []) @ joinWith CRLF (l1 # map stuffLine ls) =
             joinWith CRLF (stuffLine l1 # map stuffLine ls)"
    by (cases ls) (auto simp: stuffLine_def)
  finally show ?case by simp
qed

text \<open>Four lines, two of them beginning with a dot.\<close>

lemma dotStuff_example:
  "dotStuff (''Hi'' @ CRLF @ ''.Hi'' @ CRLF @ ''.'' @ CRLF @ ''bye'') =
     ''Hi'' @ CRLF @ ''..Hi'' @ CRLF @ ''..'' @ CRLF @ ''bye''"
proof -
  have "\<forall>l \<in> set (''Hi'' # [''.Hi'', ''.'', ''bye'']). LF \<notin> set l" by simp
  from dotStuff_lines [OF this] show ?thesis
    by (simp add: stuffLine_def)
qed

text \<open>
  The pattern asks for a line break before the dot, so a dot at the very start of the
  string is not matched: \<open>dotStuff\<close> applied to a string that begins with a dot
  leaves that dot single. \<open>send\<close> never applies it to such a string (lemma
  \<open>first_line_of_buildMime\<close> below).
\<close>

lemma dotStuff_at_start_of_string:
  "dotStuff ''.leading'' = ''.leading'' \<and> dotStuff ''.'' = ''.''"
  by simp

subsection \<open>The document that \<open>send\<close> transmits\<close>

lemma splitBreaks_nonempty: "splitBreaks s \<noteq> []"
  by (induction s rule: splitBreaks.induct) (auto split: list.splits)

lemma joinWith_push: "joinWith sep ((c # l) # ls) = c # joinWith sep (l # ls)"
  by (cases ls) simp_all

lemma joinWith_empty_first: "ls \<noteq> [] \<Longrightarrow> joinWith sep ([] # ls) = sep @ joinWith sep ls"
  by (cases ls) simp_all

lemma normalizeCRLF_lines: "normalizeCRLF s = joinWith CRLF (splitBreaks s)"
proof (induction s rule: splitBreaks.induct)
  case 1
  show ?case by simp
next
  case (2 c cs)
  show ?case
  proof (cases "prefix CRLF (c # cs)")
    case True
    with 2 show ?thesis
      by (simp add: joinWith_empty_first splitBreaks_nonempty)
  next
    case False
    show ?thesis
    proof (cases "c = LF")
      case True
      with False 2 show ?thesis
        by (simp add: joinWith_empty_first splitBreaks_nonempty)
    next
      case nl: False
      obtain l ls where sp: "splitBreaks cs = l # ls"
        using splitBreaks_nonempty [of cs] by (cases "splitBreaks cs") auto
      from False nl 2(3) have "normalizeCRLF cs = joinWith CRLF (splitBreaks cs)" by simp
      with False nl sp show ?thesis
        by (simp add: joinWith_push del: Cons_prefix_Cons)
    qed
  qed
qed

lemma splitBreaks_no_LF: "\<forall>l \<in> set (splitBreaks s). LF \<notin> set l"
proof (induction s rule: splitBreaks.induct)
  case 1
  show ?case by simp
next
  case (2 c cs)
  show ?case
  proof (cases "prefix CRLF (c # cs)")
    case True
    with 2 show ?thesis by simp
  next
    case False
    show ?thesis
    proof (cases "c = LF")
      case True
      with False 2 show ?thesis by simp
    next
      case nl: False
      obtain l ls where sp: "splitBreaks cs = l # ls"
        using splitBreaks_nonempty [of cs] by (cases "splitBreaks cs") auto
      from False nl 2(3) have "\<forall>l \<in> set (splitBreaks cs). LF \<notin> set l" by simp
      with False nl sp show ?thesis by (auto simp del: Cons_prefix_Cons)
    qed
  qed
qed


text \<open>
  The normalization and the stuffing of \<open>send\<close> together: the document is cut at its line breaks, every
  line after the first is stuffed, and the lines are joined by CRLF.
\<close>

lemma dotStuff_normalizeCRLF:
  "dotStuff (normalizeCRLF s) =
   joinWith CRLF (hd (splitBreaks s) # map stuffLine (tl (splitBreaks s)))"
proof -
  obtain l0 ls where sp: "splitBreaks s = l0 # ls"
    using splitBreaks_nonempty [of s] by (cases "splitBreaks s") auto
  from splitBreaks_no_LF [of s] sp have "\<forall>l \<in> set (l0 # ls). LF \<notin> set l" by simp
  from dotStuff_lines [OF this] sp show ?thesis by (simp add: normalizeCRLF_lines)
qed

lemma foldl_append_parts:
  "foldl (\<lambda>acc x. acc @ f x) init xs = init @ concat (map f xs)"
  by (induction xs arbitrary: init) simp_all

lemma buildMime_starts_with_From: "\<exists>rest. buildMime pf m = ''From: '' @ rest"
  by (simp add: buildMime_def Let_def joinHeaders_def foldl_append_parts)

lemma first_line_of_buildMime:
  "\<not> prefix ''.'' (hd (splitBreaks (buildMime pf m)))"
proof -
  from buildMime_starts_with_From [of pf m] obtain rest where
    b: "buildMime pf m = ''From: '' @ rest" by blast
  obtain l ls where sp: "splitBreaks (''rom: '' @ rest) = l # ls"
    using splitBreaks_nonempty [of "''rom: '' @ rest"] by (cases "splitBreaks (''rom: '' @ rest)") auto
  have "splitBreaks (''From: '' @ rest) = (CHR ''F'' # l) # ls"
    using sp by simp
  with b show ?thesis by simp
qed

text \<open>
  In \<open>send\<close> the rule holds for every line: the first line of the document is the
  \<open>From\<close> header, so not stuffing it changes nothing.
\<close>

lemma send_body_is_stuffed:
  "dotStuff (normalizeCRLF (buildMime pf m)) =
   joinWith CRLF (map stuffLine (splitBreaks (buildMime pf m)))"
proof -
  obtain l0 ls where sp: "splitBreaks (buildMime pf m) = l0 # ls"
    using splitBreaks_nonempty [of "buildMime pf m"] by (cases "splitBreaks (buildMime pf m)") auto
  with first_line_of_buildMime [of pf m] have "stuffLine l0 = l0"
    by (simp add: stuffLine_def)
  with sp show ?thesis by (simp add: dotStuff_normalizeCRLF)
qed


section \<open>Properties of \<open>send\<close>\<close>

lemma afterRejection_fields [simp]:
  "trace (afterRejection err s) = trace s"
  "rebound (afterRejection err s) = rebound s"
  "replies (afterRejection err s) = replies s"
  "handshake (afterRejection err s) = handshake s"
  by (simp_all add: afterRejection_def split: rejection.splits)

lemma trace_awaitResponse [simp]: "trace (snd (awaitResponse s)) = trace s"
  by (simp add: awaitResponse_def split: list.splits outcome.splits)

lemma trace_exchange:
  "trace (snd (andThen (awaitResponse (socketWrite d s))
                 (\<lambda>resp s. if P resp then (Threw (E resp), s) else (Ok resp, s)))) =
   trace s @ [Write (endpointOf s) d]"
  by (simp add: andThen_def awaitResponse_def socketWrite_def endpointOf_def
      split: list.splits outcome.splits)


lemma sendBody_trace:
  "trace (snd (sendBody pf m s)) =
   trace s @ [Write (endpointOf s) (dotStuff (normalizeCRLF (buildMime pf m)) @ CRLF @ ''.'' @ CRLF)]"
  unfolding sendBody_def Let_def by (rule trace_exchange)

lemma trace_andThen_prefix:
  assumes "\<And>a s. prefix (trace s) (trace (snd (f a s)))"
  shows "prefix (trace (snd m)) (trace (snd (andThen m f)))"
  using assms by (cases m) (auto simp: andThen_def split: step.splits)





subsection \<open>The transport at the end of a run\<close>

lemma connected_append: "connected s \<Longrightarrow> trace s' = trace s @ as \<Longrightarrow> connected s'"
  by (cases "trace s") (simp_all add: connected_def)

lemma transportOpen_socketWrite [simp]:
  "transportOpen s \<Longrightarrow> transportOpen (socketWrite d s)"
  by (auto simp: transportOpen_def socketWrite_def intro: connected_append)

lemma leftOpen_returns [simp]: "leftOpen (Ok a, s) = transportOpen s"
  by (simp add: leftOpen_def transportOpen_def failedTransport_def)

lemma leftOpen_throws [simp]:
  "\<not> isTransportError e \<Longrightarrow> leftOpen (Threw e, s) = transportOpen s"
  by (simp add: leftOpen_def transportOpen_def failedTransport_def)

lemma leftOpen_awaitResponse: "transportOpen s \<Longrightarrow> leftOpen (awaitResponse s)"
  by (auto simp: awaitResponse_def afterRejection_def leftOpen_def transportOpen_def
      failedTransport_def connected_def
      split: list.splits outcome.splits rejection.splits)

lemma leftOpen_andThen:
  assumes "leftOpen m" and "\<And>a s. transportOpen s \<Longrightarrow> leftOpen (f a s)"
  shows "leftOpen (andThen m f)"
proof (cases m)
  case (Pair r s)
  show ?thesis
  proof (cases r)
    case (Ok a)
    with Pair assms(1) have "transportOpen s" by simp
    from assms(2) [OF this] Pair Ok show ?thesis by (simp add: andThen_def)
  next
    case (Threw e)
    with Pair assms(1) show ?thesis
      by (simp add: andThen_def leftOpen_def failedTransport_def)
  next
    case Pending
    with Pair assms(1) show ?thesis
      by (simp add: andThen_def leftOpen_def failedTransport_def)
  qed
qed

text \<open>A command, its response, and the check of the code.\<close>

lemma leftOpen_exchange:
  assumes "transportOpen s" and "\<And>resp. \<not> isTransportError (E resp)"
  shows "leftOpen (andThen (awaitResponse (socketWrite d s))
           (\<lambda>resp s. if P resp then (Threw (E resp), s) else (Ok resp, s)))"
  using assms by (intro leftOpen_andThen leftOpen_awaitResponse) simp_all

lemma leftOpen_banner: "transportOpen s \<Longrightarrow> leftOpen (banner s)"
  unfolding banner_def by (intro leftOpen_andThen leftOpen_awaitResponse) simp_all

lemma leftOpen_greet: "transportOpen s \<Longrightarrow> leftOpen (greet cfg s)"
  unfolding greet_def
  by (intro leftOpen_andThen leftOpen_awaitResponse) (simp_all add: leftOpen_exchange)

lemma leftOpen_upgrade: "transportOpen s \<Longrightarrow> leftOpen (upgrade cfg s)"
  by (auto simp: upgrade_def Let_def leftOpen_def transportOpen_def failedTransport_def
      intro: connected_append)

lemma leftOpen_startTls: "transportOpen s \<Longrightarrow> leftOpen (startTls pf cfg resp s)"
  unfolding startTls_def
  by (simp add: leftOpen_andThen leftOpen_awaitResponse leftOpen_upgrade leftOpen_exchange)

lemma leftOpen_authPlain: "transportOpen s \<Longrightarrow> leftOpen (authPlain cfg s)"
  unfolding authPlain_def Let_def by (rule leftOpen_exchange) simp_all

lemma leftOpen_authLogin: "transportOpen s \<Longrightarrow> leftOpen (authLogin cfg s)"
  unfolding authLogin_def
  by (intro leftOpen_andThen leftOpen_awaitResponse)
     (simp_all add: leftOpen_andThen leftOpen_awaitResponse)

lemma leftOpen_authenticate: "transportOpen s \<Longrightarrow> leftOpen (authenticate cfg resp s)"
  by (simp add: authenticate_def leftOpen_authPlain leftOpen_authLogin)

lemma leftOpen_mailFrom: "transportOpen s \<Longrightarrow> leftOpen (mailFrom m s)"
  unfolding mailFrom_def by (rule leftOpen_exchange) simp_all

lemma leftOpen_rcptTo: "transportOpen s \<Longrightarrow> leftOpen (rcptTo rcpts s)"
proof (induction rcpts arbitrary: s)
  case Nil
  then show ?case by simp
next
  case (Cons r rs)
  show ?case
    unfolding rcptTo.simps
    by (intro leftOpen_andThen leftOpen_awaitResponse) (simp_all add: Cons)
qed

lemma leftOpen_dataCommand: "transportOpen s \<Longrightarrow> leftOpen (dataCommand s)"
  unfolding dataCommand_def by (rule leftOpen_exchange) simp_all

lemma leftOpen_sendBody: "transportOpen s \<Longrightarrow> leftOpen (sendBody pf m s)"
  unfolding sendBody_def Let_def by (rule leftOpen_exchange) simp_all

lemma leftOpen_beforeRcpt: "transportOpen s \<Longrightarrow> leftOpen (beforeRcpt pf cfg m s)"
  unfolding beforeRcpt_def
  by (intro leftOpen_andThen leftOpen_banner leftOpen_greet leftOpen_startTls
      leftOpen_authenticate leftOpen_mailFrom)

lemma ended_andThen:
  assumes "leftOpen m" and "\<And>a s. transportOpen s \<Longrightarrow> endedIffOk (f a s)"
  shows "endedIffOk (andThen m f)"
proof (cases m)
  case (Pair r s)
  show ?thesis
  proof (cases r)
    case (Ok a)
    with Pair assms(1) have "transportOpen s" by simp
    from assms(2) [OF this] Pair Ok show ?thesis by (simp add: andThen_def)
  next
    case (Threw e)
    with Pair assms(1) show ?thesis
      by (simp add: andThen_def leftOpen_def endedIffOk_def failedTransport_def)
  next
    case Pending
    with Pair assms(1) show ?thesis
      by (simp add: andThen_def leftOpen_def endedIffOk_def failedTransport_def)
  qed
qed

lemma ended_quit: "transportOpen s \<Longrightarrow> endedIffOk (quit s)"
  by (auto simp: quit_def awaitResponse_def afterRejection_def andThen_def endedIffOk_def
      transportOpen_def socketWrite_def failedTransport_def connected_def
      split: list.splits outcome.splits rejection.splits)

lemma ended_afterRcpt: "transportOpen s \<Longrightarrow> endedIffOk (afterRcpt pf m s)"
  unfolding afterRcpt_def
  by (intro ended_andThen leftOpen_dataCommand leftOpen_sendBody ended_quit)

lemma ended_send:
  "truthy (mFrom m) \<Longrightarrow> recipientsOf m \<noteq> [] \<Longrightarrow> endedIffOk (send pf srv cfg m)"
proof -
  assume v: "truthy (mFrom m)" "recipientsOf m \<noteq> []"
  let ?s1 = "connect cfg (newSession srv)"
  have o: "transportOpen ?s1"
    by (simp add: transportOpen_def connected_def connect_def newSession_def)
  have "endedIffOk (andThen (beforeRcpt pf cfg m ?s1)
          (\<lambda>resp s. andThen (rcptTo (recipientsOf m) s) (\<lambda>_ s. afterRcpt pf m s)))"
    by (intro ended_andThen leftOpen_beforeRcpt leftOpen_rcptTo ended_afterRcpt o)
  with v show ?thesis by (simp add: send_def Let_def)
qed

lemma send_validation:
  "\<not> (truthy (mFrom m) \<and> recipientsOf m \<noteq> []) \<Longrightarrow>
   (fst (send pf srv cfg m) = Threw FromRequired \<or>
    fst (send pf srv cfg m) = Threw RecipientRequired) \<and>
   snd (send pf srv cfg m) = newSession srv"
  by (auto simp: send_def Let_def)

text \<open>
  Claim C1, amended: a step that fails on the server's reply (banner, EHLO/HELO,
  STARTTLS, AUTH, MAIL FROM, RCPT TO, DATA, body accept: a code other than the required
  one, or no AUTH mechanism advertised) surfaces its error with the transport still
  open, neither closed nor destroyed; \<open>send\<close> calls \<open>socket.end()\<close> only on the path
  that returns, as its last action. The waits that are rejected are covered too: after
  a timeout the transport is open as well; it is destroyed exactly when the error
  thrown is the socket's own, and then by the platform, not by \<open>send\<close>.
\<close>

theorem send_closes_only_on_success:
  "(fst (send pf srv cfg m) = Ok () \<longrightarrow> last (trace (snd (send pf srv cfg m))) = End) \<and>
   (fst (send pf srv cfg m) = Threw e \<and> replyFailure e \<longrightarrow>
      transportOpen (snd (send pf srv cfg m))) \<and>
   (fst (send pf srv cfg m) = Threw (ReadFailed TimeoutError) \<longrightarrow>
      transportOpen (snd (send pf srv cfg m))) \<and>
   (fst (send pf srv cfg m) \<noteq> Ok () \<longrightarrow> End \<notin> set (trace (snd (send pf srv cfg m)))) \<and>
   (destroyed (snd (send pf srv cfg m)) \<longleftrightarrow>
      (\<exists>err. fst (send pf srv cfg m) = Threw (ReadFailed (TransportError err))))"
proof (cases "truthy (mFrom m) \<and> recipientsOf m \<noteq> []")
  case True
  then have e: "endedIffOk (send pf srv cfg m)" by (simp add: ended_send)
  show ?thesis
  proof (cases "fst (send pf srv cfg m)")
    case (Ok u)
    with e show ?thesis by (simp add: endedIffOk_def failedTransport_def)
  next
    case (Threw x)
    have t: "isTransportError x \<longleftrightarrow> (\<exists>err. x = ReadFailed (TransportError err))"
      by (cases x rule: isTransportError.cases) simp_all
    have r: "replyFailure x \<Longrightarrow> \<not> isTransportError x"
      by (cases x rule: isTransportError.cases) simp_all
    from e Threw t r show ?thesis
      by (auto simp: endedIffOk_def failedTransport_def transportOpen_def)
  next
    case Pending
    with e show ?thesis by (simp add: endedIffOk_def failedTransport_def)
  qed
next
  case False
  from send_validation [OF this, of pf srv cfg] show ?thesis
    by (auto simp: newSession_def)
qed

text \<open>
  Claim C9: when \<open>from\<close> is missing (\<open>undefined\<close> or empty) or the derived recipient
  list is empty, \<open>send\<close> throws one of the two validation errors and has done nothing:
  no connection opened, nothing written.
\<close>

theorem validation_before_network:
  "\<not> truthy (mFrom m) \<or> recipientsOf m = [] \<Longrightarrow>
   (fst (send pf srv cfg m) = Threw FromRequired \<or> fst (send pf srv cfg m) = Threw RecipientRequired) \<and>
   trace (snd (send pf srv cfg m)) = []"
  by (auto simp: send_def Let_def newSession_def)




text \<open>
  The LOGIN exchange when the server plays along: \<open>AUTH LOGIN\<close>, the user name, the
  password, each in base64 on a line of its own.
\<close>

lemma authLogin_exchange:
  assumes "replies s = Resolved r1 # Resolved r2 # Resolved r3 # rest"
    and "code r1 = 334" and "code r2 = 334" and "code r3 = 235"
  shows "authLogin cfg s =
         (Ok r3, s\<lparr>trace := trace s @
                      [Write (endpointOf s) (''AUTH LOGIN'' @ CRLF),
                       Write (endpointOf s) (base64 (orEmpty (user cfg)) @ CRLF),
                       Write (endpointOf s) (base64 (orEmpty (pass cfg)) @ CRLF)],
                    replies := rest\<rparr>)"
  using assms
  by (simp add: authLogin_def andThen_def awaitResponse_def socketWrite_def endpointOf_def)

text \<open>
  Claim C7: with credentials supplied, if the capability lines advertise PLAIN (whether
  or not LOGIN too) the step writes \<open>AUTH PLAIN\<close> with the encoded credentials and nothing
  else; if they advertise LOGIN and not PLAIN it starts with \<open>AUTH LOGIN\<close>; if they
  advertise neither it throws the no-mechanism error and writes nothing.
\<close>

theorem auth_prefers_plain:
  assumes "truthy (user cfg)" and "truthy (pass cfg)"
  shows "(supportsAuthPlain (lines resp) \<longrightarrow>
            trace (snd (authenticate cfg resp s)) =
              trace s @ [Write (endpointOf s)
                (''AUTH PLAIN '' @ base64 (CHR 0x00 # orEmpty (user cfg) @ CHR 0x00 # orEmpty (pass cfg)) @ CRLF)]) \<and>
         (\<not> supportsAuthPlain (lines resp) \<and> supportsAuthLogin (lines resp) \<longrightarrow>
            prefix (trace s @ [Write (endpointOf s) (''AUTH LOGIN'' @ CRLF)])
                   (trace (snd (authenticate cfg resp s)))) \<and>
         (\<not> supportsAuthPlain (lines resp) \<and> \<not> supportsAuthLogin (lines resp) \<longrightarrow>
            authenticate cfg resp s = (Threw NoAuthMechanism, s))"
proof (intro conjI impI)
  assume "supportsAuthPlain (lines resp)"
  with assms show "trace (snd (authenticate cfg resp s)) =
              trace s @ [Write (endpointOf s)
                (''AUTH PLAIN '' @ base64 (CHR 0x00 # orEmpty (user cfg) @ CHR 0x00 # orEmpty (pass cfg)) @ CRLF)]"
    by (simp add: authenticate_def authPlain_def Let_def andThen_def awaitResponse_def
        socketWrite_def endpointOf_def split: list.splits outcome.splits)
next
  assume a: "\<not> supportsAuthPlain (lines resp) \<and> supportsAuthLogin (lines resp)"
  let ?s1 = "socketWrite (''AUTH LOGIN'' @ CRLF) s"
  have "prefix (trace (snd (awaitResponse ?s1))) (trace (snd (authLogin cfg s)))"
    unfolding authLogin_def
    by (intro trace_andThen_prefix)
       (simp add: andThen_def awaitResponse_def socketWrite_def split: list.splits outcome.splits)
  with a assms show "prefix (trace s @ [Write (endpointOf s) (''AUTH LOGIN'' @ CRLF)])
                   (trace (snd (authenticate cfg resp s)))"
    by (simp add: authenticate_def socketWrite_def endpointOf_def)
next
  assume "\<not> supportsAuthPlain (lines resp) \<and> \<not> supportsAuthLogin (lines resp)"
  with assms show "authenticate cfg resp s = (Threw NoAuthMechanism, s)"
    by (simp add: authenticate_def)
qed

lemma beforeRcpt_cong:
  "mFrom m = mFrom m' \<Longrightarrow> beforeRcpt pf cfg m = beforeRcpt pf cfg m'"
  by (simp add: beforeRcpt_def mailFrom_def fun_eq_iff)

lemma buildMime_cong:
  assumes "mFrom m = mFrom m'" "toList (mTo m) = toList (mTo m')"
    "ccList (mCc m) = ccList (mCc m')" "bccList (mBcc m) = bccList (mBcc m')"
    "subject m = subject m'" "mText m = mText m'" "html m = html m'"
    "attachments m = attachments m'"
  shows "buildMime pf m = buildMime pf m'"
  unfolding buildMime_def by (simp only: assms)

lemma afterRcpt_cong:
  "buildMime pf m = buildMime pf m' \<Longrightarrow> afterRcpt pf m = afterRcpt pf m'"
  by (simp add: afterRcpt_def sendBody_def fun_eq_iff)

lemma send_cong:
  assumes "mFrom m = mFrom m'" "recipientsOf m = recipientsOf m'"
    "buildMime pf m = buildMime pf m'"
  shows "send pf srv cfg m = send pf srv cfg m'"
  unfolding send_def
  by (simp only: assms(1,2) beforeRcpt_cong [OF assms(1)] afterRcpt_cong [OF assms(3)])

lemma single_as_singleton:
  assumes "a \<noteq> []"
  shows "concatArg (Single a) = concatArg (Many [a])"
    and "toList (Single a) = toList (Many [a])"
    and "ccList (Single a) = ccList (Many [a])"
    and "bccList (Single a) = bccList (Many [a])"
  using assms by (simp_all add: concatArg_def toList_def ccList_def bccList_def)

text \<open>
  Claim C10: an address given as a plain string in \<open>to\<close>, \<open>cc\<close> or \<open>bcc\<close> is
  treated as the array holding just that address: \<open>send\<close> behaves the same in every
  respect (recipients, headers, commands, result), and the address stands in the derived
  recipients at the position of its field. (An address is not the empty string, which
  \<open>to || []\<close> drops.)
\<close>

theorem single_address_as_singleton:
  assumes "a \<noteq> []"
  shows "send pf srv cfg (m\<lparr>mTo := Single a\<rparr>) = send pf srv cfg (m\<lparr>mTo := Many [a]\<rparr>) \<and>
         send pf srv cfg (m\<lparr>mCc := Single a\<rparr>) = send pf srv cfg (m\<lparr>mCc := Many [a]\<rparr>) \<and>
         send pf srv cfg (m\<lparr>mBcc := Single a\<rparr>) = send pf srv cfg (m\<lparr>mBcc := Many [a]\<rparr>) \<and>
         recipientsOf (m\<lparr>mTo := Single a\<rparr>) = [a] @ concatArg (mCc m) @ concatArg (mBcc m) \<and>
         recipientsOf (m\<lparr>mCc := Single a\<rparr>) = concatArg (mTo m) @ [a] @ concatArg (mBcc m) \<and>
         recipientsOf (m\<lparr>mBcc := Single a\<rparr>) = concatArg (mTo m) @ concatArg (mCc m) @ [a]"
proof -
  note eqs = single_as_singleton [OF assms]
  have 1: "send pf srv cfg (m\<lparr>mTo := Single a\<rparr>) = send pf srv cfg (m\<lparr>mTo := Many [a]\<rparr>)"
    by (rule send_cong) (simp_all add: recipientsOf_def eqs buildMime_cong)
  have 2: "send pf srv cfg (m\<lparr>mCc := Single a\<rparr>) = send pf srv cfg (m\<lparr>mCc := Many [a]\<rparr>)"
    by (rule send_cong) (simp_all add: recipientsOf_def eqs buildMime_cong)
  have 3: "send pf srv cfg (m\<lparr>mBcc := Single a\<rparr>) = send pf srv cfg (m\<lparr>mBcc := Many [a]\<rparr>)"
    by (rule send_cong) (simp_all add: recipientsOf_def eqs buildMime_cong)
  from assms have 4: "concatArg (Single a) = [a]" by (simp add: concatArg_def)
  from 1 2 3 4 show ?thesis by (simp add: recipientsOf_def)
qed

subsection \<open>Example sessions\<close>

lemmas send_defs = send_def newSession_def connect_def beforeRcpt_def afterRcpt_def banner_def
  greet_def startTls_def authenticate_def mailFrom_def dataCommand_def quit_def
  andThen_def awaitResponse_def socketWrite_def rcptCommand_def recipientsOf_def concatArg_def
  truthy_def interpolate_def supportsStartTLS_def includes_str_def upperAscii_def

lemmas example_defs = examplePlatform_def exampleConfig_def exampleMessage_def reply_def
  rejectingServer_def acceptingServer_def

lemma rejecting_run:
  "send examplePlatform rejectingServer exampleConfig exampleMessage =
     (Threw (RcptFailed ''c@z'' [''550 no such user'']),
      \<lparr>trace = [Connect False 587 ''mx.example'',
                Write Socket (''EHLO localhost'' @ CRLF),
                Write Socket (''MAIL FROM:<a@x>'' @ CRLF),
                Write Socket (''RCPT TO:<b@y>'' @ CRLF),
                Write Socket (''RCPT TO:<c@z>'' @ CRLF)],
       rebound = False, replies = [reply 250 [''250 ok'']], handshake = True, destroyed = False\<rparr>)"
  by (simp add: send_defs example_defs)



lemma accepting_run:
  "fst (send examplePlatform acceptingServer exampleConfig exampleMessage) = Ok ()"
  by (simp add: send_defs example_defs sendBody_def)


text \<open>
  Claim C1, as stated (the transport is closed or destroyed before the error is
  surfaced): refuted. The RCPT TO of the second of three recipients is answered with
  550: \<open>send\<close> throws the RCPT error; \<open>socket.end()\<close> has not been called and the
  socket is not destroyed.
\<close>

theorem send_failure_leaves_transport_open_counterexample:
  "fst (send examplePlatform rejectingServer exampleConfig exampleMessage) =
     Threw (RcptFailed ''c@z'' [''550 no such user'']) \<and>
   End \<notin> set (trace (snd (send examplePlatform rejectingServer exampleConfig exampleMessage))) \<and>
   \<not> destroyed (snd (send examplePlatform rejectingServer exampleConfig exampleMessage))"
  by (simp add: rejecting_run)

text \<open>The wait for the reply to the second RCPT TO times out, or the socket fails.\<close>

lemma silent_run:
  "send examplePlatform silentServer exampleConfig exampleMessage =
     (Threw (ReadFailed TimeoutError),
      \<lparr>trace = [Connect False 587 ''mx.example'',
                Write Socket (''EHLO localhost'' @ CRLF),
                Write Socket (''MAIL FROM:<a@x>'' @ CRLF),
                Write Socket (''RCPT TO:<b@y>'' @ CRLF),
                Write Socket (''RCPT TO:<c@z>'' @ CRLF)],
       rebound = False, replies = [], handshake = True, destroyed = False\<rparr>)"
  by (simp add: send_defs example_defs silentServer_def afterRejection_def)

lemma broken_run:
  "send examplePlatform brokenServer exampleConfig exampleMessage =
     (Threw (ReadFailed (TransportError ''read ECONNRESET'')),
      \<lparr>trace = [Connect False 587 ''mx.example'',
                Write Socket (''EHLO localhost'' @ CRLF),
                Write Socket (''MAIL FROM:<a@x>'' @ CRLF),
                Write Socket (''RCPT TO:<b@y>'' @ CRLF),
                Write Socket (''RCPT TO:<c@z>'' @ CRLF)],
       rebound = False, replies = [], handshake = True, destroyed = True\<rparr>)"
  by (simp add: send_defs example_defs brokenServer_def afterRejection_def)

text \<open>
  Four example sessions: the one that fails on the reply to RCPT TO and the one whose
  wait times out leave the transport open; the one that returns has closed it last; the
  one whose socket fails has not called \<open>socket.end()\<close>, and the socket is destroyed.
\<close>

theorem send_closes_only_on_success_witness:
  "fst (send examplePlatform rejectingServer exampleConfig exampleMessage) =
     Threw (RcptFailed ''c@z'' [''550 no such user'']) \<and>
   replyFailure (RcptFailed ''c@z'' [''550 no such user'']) \<and>
   transportOpen (snd (send examplePlatform rejectingServer exampleConfig exampleMessage)) \<and>
   fst (send examplePlatform acceptingServer exampleConfig exampleMessage) = Ok () \<and>
   last (trace (snd (send examplePlatform acceptingServer exampleConfig exampleMessage))) = End \<and>
   fst (send examplePlatform silentServer exampleConfig exampleMessage) =
     Threw (ReadFailed TimeoutError) \<and>
   transportOpen (snd (send examplePlatform silentServer exampleConfig exampleMessage)) \<and>
   fst (send examplePlatform brokenServer exampleConfig exampleMessage) =
     Threw (ReadFailed (TransportError ''read ECONNRESET'')) \<and>
   destroyed (snd (send examplePlatform brokenServer exampleConfig exampleMessage)) \<and>
   End \<notin> set (trace (snd (send examplePlatform brokenServer exampleConfig exampleMessage)))"
proof -
  have 1: "fst (send examplePlatform rejectingServer exampleConfig exampleMessage) =
     Threw (RcptFailed ''c@z'' [''550 no such user''])"
    by (simp add: rejecting_run)
  have 2: "fst (send examplePlatform silentServer exampleConfig exampleMessage) =
     Threw (ReadFailed TimeoutError)"
    by (simp add: silent_run)
  have 3: "fst (send examplePlatform brokenServer exampleConfig exampleMessage) =
     Threw (ReadFailed (TransportError ''read ECONNRESET''))"
    by (simp add: broken_run)
  from send_closes_only_on_success [of examplePlatform rejectingServer exampleConfig exampleMessage
          "RcptFailed ''c@z'' [''550 no such user'']"]
       send_closes_only_on_success [of examplePlatform acceptingServer exampleConfig exampleMessage]
       send_closes_only_on_success [of examplePlatform silentServer exampleConfig exampleMessage]
       send_closes_only_on_success [of examplePlatform brokenServer exampleConfig exampleMessage]
       1 2 3 accepting_run
  show ?thesis by simp
qed

text \<open>
  A message without \<open>from\<close>, and a message whose only address field is the empty
  string: the validation error, and no action at all.
\<close>

theorem validation_before_network_witness:
  "\<not> truthy (mFrom (exampleMessage\<lparr>mFrom := None\<rparr>)) \<and>
   fst (send examplePlatform acceptingServer exampleConfig (exampleMessage\<lparr>mFrom := None\<rparr>)) =
     Threw FromRequired \<and>
   trace (snd (send examplePlatform acceptingServer exampleConfig (exampleMessage\<lparr>mFrom := None\<rparr>))) = [] \<and>
   recipientsOf (exampleMessage\<lparr>mTo := Undefined, mCc := Single []\<rparr>) = [] \<and>
   fst (send examplePlatform acceptingServer exampleConfig
          (exampleMessage\<lparr>mTo := Undefined, mCc := Single []\<rparr>)) = Threw RecipientRequired \<and>
   trace (snd (send examplePlatform acceptingServer exampleConfig
          (exampleMessage\<lparr>mTo := Undefined, mCc := Single []\<rparr>))) = []"
proof -
  have 1: "\<not> truthy (mFrom (exampleMessage\<lparr>mFrom := None\<rparr>))"
    by (simp add: truthy_def)
  have 2: "recipientsOf (exampleMessage\<lparr>mTo := Undefined, mCc := Single []\<rparr>) = []"
    by (simp add: recipientsOf_def concatArg_def exampleMessage_def)
  have 3: "fst (send examplePlatform acceptingServer exampleConfig (exampleMessage\<lparr>mFrom := None\<rparr>))
           \<noteq> Threw RecipientRequired"
    by (simp add: send_def truthy_def)
  have 4: "fst (send examplePlatform acceptingServer exampleConfig
          (exampleMessage\<lparr>mTo := Undefined, mCc := Single []\<rparr>)) \<noteq> Threw FromRequired"
    by (simp add: send_def truthy_def exampleMessage_def recipientsOf_def concatArg_def)
  from validation_before_network [of "exampleMessage\<lparr>mFrom := None\<rparr>" examplePlatform acceptingServer exampleConfig]
       validation_before_network [of "exampleMessage\<lparr>mTo := Undefined, mCc := Single []\<rparr>" examplePlatform
              acceptingServer exampleConfig] 1 2 3 4
  show ?thesis by simp
qed

text \<open>The address \<open>b@y\<close> as a plain string and as a one-element array.\<close>

theorem single_address_as_singleton_witness:
  "''b@y'' \<noteq> [] \<and>
   send examplePlatform acceptingServer exampleConfig (exampleMessage\<lparr>mTo := Single ''b@y''\<rparr>) =
   send examplePlatform acceptingServer exampleConfig (exampleMessage\<lparr>mTo := Many [''b@y'']\<rparr>) \<and>
   recipientsOf (exampleMessage\<lparr>mTo := Single ''b@y''\<rparr>) = [''b@y'', ''d@w''] \<and>
   recipientsOf (exampleMessage\<lparr>mBcc := Single ''b@y''\<rparr>) = [''b@y'', ''c@z'', ''d@w'', ''b@y'']"
proof -
  have n: "''b@y'' \<noteq> []" by simp
  from single_address_as_singleton [OF n, of examplePlatform acceptingServer exampleConfig exampleMessage] n
  show ?thesis by (simp add: concatArg_def exampleMessage_def)
qed


lemmas auth_defs = supportsAuthPlain_def supportsAuthLogin_def upperAscii_def isWordChar_def
  truthy_def exampleCredentials_def exampleConfig_def ehloBoth_def ehloLoginOnly_def
  ehloNoAuth_def

text \<open>
  The AUTH step after three EHLO responses: both mechanisms advertised, LOGIN only,
  neither.
\<close>

theorem auth_prefers_plain_witness:
  "truthy (user exampleCredentials) \<and> truthy (pass exampleCredentials) \<and>
   supportsAuthPlain (lines ehloBoth) \<and> supportsAuthLogin (lines ehloBoth) \<and>
   trace (snd (authenticate exampleCredentials ehloBoth authSession)) =
     [Write Secured (''AUTH PLAIN AHVzZXIAcGFzcw=='' @ CRLF)] \<and>
   \<not> supportsAuthPlain (lines ehloLoginOnly) \<and> supportsAuthLogin (lines ehloLoginOnly) \<and>
   prefix [Write Secured (''AUTH LOGIN'' @ CRLF)]
     (trace (snd (authenticate exampleCredentials ehloLoginOnly authSession))) \<and>
   \<not> supportsAuthPlain (lines ehloNoAuth) \<and> \<not> supportsAuthLogin (lines ehloNoAuth) \<and>
   authenticate exampleCredentials ehloNoAuth authSession = (Threw NoAuthMechanism, authSession)"
proof -
  have u: "truthy (user exampleCredentials)" and p: "truthy (pass exampleCredentials)"
    by (simp_all add: auth_defs)
  have b: "supportsAuthPlain (lines ehloBoth)" "supportsAuthLogin (lines ehloBoth)"
    by (simp_all add: auth_defs)
  have l: "\<not> supportsAuthPlain (lines ehloLoginOnly)" "supportsAuthLogin (lines ehloLoginOnly)"
    by (simp_all add: auth_defs)
  have n: "\<not> supportsAuthPlain (lines ehloNoAuth)" "\<not> supportsAuthLogin (lines ehloNoAuth)"
    by (simp_all add: auth_defs)
  have e: "base64 (CHR 0x00 # orEmpty (user exampleCredentials) @ CHR 0x00 # orEmpty (pass exampleCredentials))
           = ''AHVzZXIAcGFzcw==''"
    by (simp add: base64_def base64Alphabet_def orEmpty_def exampleCredentials_def exampleConfig_def)
  from auth_prefers_plain [OF u p, of ehloBoth authSession] auth_prefers_plain [OF u p, of ehloLoginOnly authSession]
       auth_prefers_plain [OF u p, of ehloNoAuth authSession] u p b l n e
  show ?thesis by (simp add: endpointOf_def authSession_def)
qed

text \<open>
  A whole run: banner, EHLO advertising STARTTLS and AUTH, the upgrade, EHLO again,
  AUTH PLAIN, MAIL FROM, two recipients, DATA, the body, QUIT. \<open>send\<close> returns, having
  issued exactly these commands in this order, the later ones through the TLS socket.
\<close>

lemma starttls_auth_plain_run:
  "send examplePlatform upgradingServer exampleCredentials twoRecipients =
     (Ok (),
      \<lparr>trace = [Connect False 587 ''mx.example'',
                Write Socket (''EHLO localhost'' @ CRLF),
                Write Socket (''STARTTLS'' @ CRLF),
                RemoveAllListeners,
                TlsConnect ''mx.example'',
                Write Secured (''EHLO localhost'' @ CRLF),
                Write Secured (''AUTH PLAIN AHVzZXIAcGFzcw=='' @ CRLF),
                Write Secured (''MAIL FROM:<a@x>'' @ CRLF),
                Write Secured (''RCPT TO:<b@y>'' @ CRLF),
                Write Secured (''RCPT TO:<c@z>'' @ CRLF),
                Write Secured (''DATA'' @ CRLF),
                Write Secured (dotStuff (normalizeCRLF (buildMime examplePlatform twoRecipients))
                               @ CRLF @ ''.'' @ CRLF),
                Write Secured (''QUIT'' @ CRLF),
                End],
       rebound = True, replies = [], handshake = True, destroyed = False\<rparr>)"
  by (simp add: send_defs example_defs auth_defs upgradingServer_def twoRecipients_def
      sendBody_def upgrade_def authPlain_def base64_def base64Alphabet_def orEmpty_def)

section \<open>The body that \<open>send\<close> transmits\<close>

text \<open>
  Claim C2: dot-stuffing of the CRLF-normalized document. The document that \<open>send\<close>
  normalizes and stuffs is the one \<open>buildMime\<close> assembles; its lines are the text
  between the line breaks, joined by CRLF. \<open>dotStuff\<close> maps it to the document in
  which every line that begins with a dot, a line that is only a dot included, has a
  second dot prepended and every other line is unchanged: that is \<open>stuffLine\<close>, applied
  to every line, the first one included (it is the \<open>From\<close> header). This is the
  body \<open>send\<close> writes, followed by CRLF, a dot and CRLF. The same holds for any lines
  without LF joined by CRLF, when the first line does not begin with a dot. A body
  that contains \<open>\r\n.Hi\<close> has \<open>\r\n..Hi\<close> after one application.
\<close>

theorem document_is_dot_stuffed:
  "normalizeCRLF (buildMime pf m) = joinWith CRLF (splitBreaks (buildMime pf m)) \<and>
   dotStuff (normalizeCRLF (buildMime pf m)) =
     joinWith CRLF (map stuffLine (splitBreaks (buildMime pf m))) \<and>
   trace (snd (sendBody pf m s)) =
     trace s @ [Write (endpointOf s)
                  (joinWith CRLF (map stuffLine (splitBreaks (buildMime pf m))) @
                   CRLF @ ''.'' @ CRLF)] \<and>
   ((\<forall>l \<in> set (l0 # ls). LF \<notin> set l) \<and> \<not> prefix ''.'' l0 \<longrightarrow>
      dotStuff (joinWith CRLF (l0 # ls)) = joinWith CRLF (map stuffLine (l0 # ls))) \<and>
   dotStuff (''body'' @ CRLF @ ''.Hi'') = ''body'' @ CRLF @ ''..Hi''"
proof -
  have lines: "(\<forall>l \<in> set (l0 # ls). LF \<notin> set l) \<and> \<not> prefix ''.'' l0 \<longrightarrow>
      dotStuff (joinWith CRLF (l0 # ls)) = joinWith CRLF (map stuffLine (l0 # ls))"
  proof
    assume h: "(\<forall>l \<in> set (l0 # ls). LF \<notin> set l) \<and> \<not> prefix ''.'' l0"
    then have "stuffLine l0 = l0" by (simp add: stuffLine_def)
    with h dotStuff_lines [of l0 ls] show
      "dotStuff (joinWith CRLF (l0 # ls)) = joinWith CRLF (map stuffLine (l0 # ls))"
      by simp
  qed
  have written: "trace (snd (sendBody pf m s)) =
     trace s @ [Write (endpointOf s)
                  (joinWith CRLF (map stuffLine (splitBreaks (buildMime pf m))) @
                   CRLF @ ''.'' @ CRLF)]"
    by (simp only: sendBody_trace send_body_is_stuffed)
  have example: "dotStuff (''body'' @ CRLF @ ''.Hi'') = ''body'' @ CRLF @ ''..Hi''"
    by simp
  from lines written example show ?thesis
    by (simp only: normalizeCRLF_lines [symmetric] send_body_is_stuffed [symmetric] simp_thms)
qed

text \<open>
  Four lines, the second \<open>.leading\<close>, the third only a dot; and the document of the
  message above: in what \<open>dotStuff\<close> returns the two lines are \<open>..leading\<close> and
  \<open>..\<close>.
\<close>

theorem document_is_dot_stuffed_witness:
  "LF \<notin> set ''Subject: Hi'' \<and> LF \<notin> set ''.leading'' \<and> LF \<notin> set ''.'' \<and> LF \<notin> set ''bye'' \<and>
   \<not> prefix ''.'' ''Subject: Hi'' \<and>
   dotStuff (joinWith CRLF [''Subject: Hi'', ''.leading'', ''.'', ''bye'']) =
     joinWith CRLF [''Subject: Hi'', ''..leading'', ''..'', ''bye''] \<and>
   dotStuff (normalizeCRLF (buildMime examplePlatform dottedMessage)) =
     joinWith CRLF (map stuffLine (splitBreaks (buildMime examplePlatform dottedMessage))) \<and>
   take 4 (drop 13 (map stuffLine (splitBreaks (buildMime examplePlatform dottedMessage)))) =
     [''Hello'', ''..leading'', ''..'', ''bye'']"
proof -
  have h: "(\<forall>l \<in> set (''Subject: Hi'' # [''.leading'', ''.'', ''bye'']). LF \<notin> set l) \<and>
           \<not> prefix ''.'' ''Subject: Hi''"
    by simp
  have d: "take 4 (drop 13 (map stuffLine (splitBreaks (buildMime examplePlatform dottedMessage)))) =
     [''Hello'', ''..leading'', ''..'', ''bye'']"
    by (simp add: buildMime_def Let_def joinHeaders_def dottedMessage_def exampleMessage_def
        examplePlatform_def interpolate_def orEmpty_def toList_def ccList_def bccList_def
        optionalHeader_def truthy_def stuffLine_def)
  note t = document_is_dot_stuffed [of examplePlatform dottedMessage authSession
      "''Subject: Hi''" "[''.leading'', ''.'', ''bye'']"]
  from t have doc: "dotStuff (normalizeCRLF (buildMime examplePlatform dottedMessage)) =
     joinWith CRLF (map stuffLine (splitBreaks (buildMime examplePlatform dottedMessage)))"
    by (elim conjE)
  from t have "(\<forall>l \<in> set (''Subject: Hi'' # [''.leading'', ''.'', ''bye'']). LF \<notin> set l) \<and>
      \<not> prefix ''.'' ''Subject: Hi'' \<longrightarrow>
      dotStuff (joinWith CRLF (''Subject: Hi'' # [''.leading'', ''.'', ''bye''])) =
      joinWith CRLF (map stuffLine (''Subject: Hi'' # [''.leading'', ''.'', ''bye'']))"
    by (elim conjE)
  from this [THEN mp, OF h]
  have "dotStuff (joinWith CRLF [''Subject: Hi'', ''.leading'', ''.'', ''bye'']) =
     joinWith CRLF (map stuffLine [''Subject: Hi'', ''.leading'', ''.'', ''bye''])" .
  then have "dotStuff (joinWith CRLF [''Subject: Hi'', ''.leading'', ''.'', ''bye'']) =
     joinWith CRLF [''Subject: Hi'', ''..leading'', ''..'', ''bye'']"
    by (simp add: stuffLine_def)
  with doc d show ?thesis by simp
qed


section \<open>Properties of the \<open>data\<close> subscription\<close>

lemmas transport_defs = newTransport_def socketOn_def socketOff_def createLineReader_def
  readerOnLine_def readerRemove_def deliver_def emitData_def upgradeTransport_def
  liveEndpoint_def

lemma worlds_deliver_other: "h' \<noteq> h \<Longrightarrow> worlds (deliver chunk t h') h = worlds t h"
  by (simp add: deliver_def split: prod.splits)

lemma worlds_foldl_deliver: "h \<notin> set hs \<Longrightarrow> worlds (foldl (deliver chunk) t hs) h = worlds t h"
  by (induction hs arbitrary: t) (auto simp: worlds_deliver_other)

lemma tables_deliver [simp]:
  "socketData (deliver chunk t h) = socketData t"
  "securedData (deliver chunk t h) = securedData t"
  "hijacked (deliver chunk t h) = hijacked t"
  by (simp_all add: deliver_def split: prod.splits)

lemma tables_foldl_deliver [simp]:
  "socketData (foldl (deliver chunk) t hs) = socketData t"
  "securedData (foldl (deliver chunk) t hs) = securedData t"
  "hijacked (foldl (deliver chunk) t hs) = hijacked t"
  by (induction hs arbitrary: t) simp_all

text \<open>
  Before the upgrade, \<open>remove\<close> takes the reader off the socket: a later \<open>data\<close>
  event does not reach its listeners.
\<close>

lemma removed_reader_is_silent_before_upgrade:
  assumes "\<not> hijacked t" "distinct (socketData t)"
  shows "worlds (emitData (liveEndpoint (readerRemove h t)) chunk (readerRemove h t)) h = worlds t h"
  using assms
  by (simp add: emitData_def liveEndpoint_def readerRemove_def socketOff_def worlds_foldl_deliver)

text \<open>
  Claim C4 (after \<open>remove\<close>, no line is emitted to the reader's listeners for later data,
  also after the STARTTLS upgrade): the code differs after the upgrade. A reader created
  after the upgrade is subscribed through \<open>socket.on\<close>, which is \<open>secured.on\<close>;
  \<open>remove\<close> calls \<open>socket.off\<close>, which still acts on the listeners of \<open>socket\<close>, where
  the reader is not. The reader stays subscribed: the line of the next chunk is emitted
  to its listener. The same steps without the upgrade emit nothing after \<open>remove\<close>.
\<close>

theorem removed_reader_still_emits_after_upgrade:
  "(let t1 = upgradeTransport (newTransport []);
        (h, t2) = createLineReader t1;
        t3 = readerOnLine h logLine t2;
        t4 = emitData (liveEndpoint t3) (''250 AUTH PLAIN'' @ CRLF) t3;
        t5 = readerRemove h t4;
        t6 = emitData (liveEndpoint t5) (''235 ok'' @ CRLF) t5
    in worlds t5 h = [''250 AUTH PLAIN''] \<and>
       worlds t6 h = [''250 AUTH PLAIN'', ''235 ok'']) \<and>
   (let t1 = newTransport [];
        (h, t2) = createLineReader t1;
        t3 = readerOnLine h logLine t2;
        t4 = emitData (liveEndpoint t3) (''250 AUTH PLAIN'' @ CRLF) t3;
        t5 = readerRemove h t4;
        t6 = emitData (liveEndpoint t5) (''235 ok'' @ CRLF) t5
    in worlds t5 h = [''250 AUTH PLAIN''] \<and>
       worlds t6 h = [''250 AUTH PLAIN''])"
  by (simp add: transport_defs reader_defs drain.simps)

end
